theory Spec2Isabelle
  imports Complex_Main "HOL-Library.Multiset" "HOL-Library.Log_Nat"
begin

section \<open>JavaScript numbers\<close>

text \<open>
  The utility functions of \<^verbatim>\<open>shared/constants.js\<close> compute on JavaScript numbers.
  A number is modelled as a finite value, one of the two infinities, or NaN; a finite value
  is a real number, and the two zeros are identified (a zero divisor is taken to be \<open>+0\<close>).
  The operators of this section return the exact result on finite operands and follow
  ECMAScript on the special values. The result of an arithmetic operator of ECMAScript is
  the exact result rounded to binary64, which the next section adds. The exact operator
  is used alone where an integer difference is only tested for its sign (the comparators
  of the two sorts) and in the products that scale a random number to an index.
\<close>

datatype number = Num real | PosInfinity | NegInfinity | NaN

fun js_neg :: "number \<Rightarrow> number" where
  "js_neg (Num a) = Num (- a)"
| "js_neg PosInfinity = NegInfinity"
| "js_neg NegInfinity = PosInfinity"
| "js_neg NaN = NaN"

text \<open>\<^verbatim>\<open>a + b\<close> on numbers.\<close>

fun js_add :: "number \<Rightarrow> number \<Rightarrow> number" where
  "js_add (Num a) (Num b) = Num (a + b)"
| "js_add NaN _ = NaN"
| "js_add _ NaN = NaN"
| "js_add PosInfinity NegInfinity = NaN"
| "js_add NegInfinity PosInfinity = NaN"
| "js_add PosInfinity _ = PosInfinity"
| "js_add _ PosInfinity = PosInfinity"
| "js_add NegInfinity _ = NegInfinity"
| "js_add _ NegInfinity = NegInfinity"

text \<open>\<^verbatim>\<open>a - b\<close> on numbers.\<close>

definition js_sub :: "number \<Rightarrow> number \<Rightarrow> number" where
  "js_sub a b = js_add a (js_neg b)"

text \<open>The sign of a number that is not NaN, as \<open>-1\<close>, \<open>0\<close> or \<open>1\<close>.\<close>

fun js_sign :: "number \<Rightarrow> int" where
  "js_sign (Num a) = (if a < 0 then - 1 else if a = 0 then 0 else 1)"
| "js_sign PosInfinity = 1"
| "js_sign NegInfinity = - 1"
| "js_sign NaN = 0"

definition signed_infinity :: "int \<Rightarrow> number" where
  "signed_infinity s = (if s < 0 then NegInfinity else PosInfinity)"

text \<open>\<^verbatim>\<open>a * b\<close> on numbers: zero times an infinity is NaN.\<close>

fun js_mul :: "number \<Rightarrow> number \<Rightarrow> number" where
  "js_mul (Num a) (Num b) = Num (a * b)"
| "js_mul NaN _ = NaN"
| "js_mul _ NaN = NaN"
| "js_mul a b =
     (if js_sign a * js_sign b = 0 then NaN else signed_infinity (js_sign a * js_sign b))"

text \<open>
  \<^verbatim>\<open>a / b\<close> on numbers: a finite non-zero value divided by zero is an infinity,
  \<open>0 / 0\<close> and the quotient of two infinities are NaN, a finite value divided by an infinity
  is zero.
\<close>

fun js_div :: "number \<Rightarrow> number \<Rightarrow> number" where
  "js_div NaN _ = NaN"
| "js_div _ NaN = NaN"
| "js_div (Num a) (Num b) =
     (if b = 0 then (if a = 0 then NaN else signed_infinity (js_sign (Num a)))
      else Num (a / b))"
| "js_div (Num a) _ = Num 0"
| "js_div a (Num b) =
     signed_infinity (if b < 0 then - js_sign a else js_sign a)"
| "js_div _ _ = NaN"

text \<open>\<^verbatim>\<open>a <= b\<close> and \<^verbatim>\<open>a < b\<close>: every comparison with NaN is false.\<close>

fun js_le :: "number \<Rightarrow> number \<Rightarrow> bool" where
  "js_le NaN _ = False"
| "js_le _ NaN = False"
| "js_le (Num a) (Num b) = (a \<le> b)"
| "js_le NegInfinity _ = True"
| "js_le _ PosInfinity = True"
| "js_le _ _ = False"

fun js_less :: "number \<Rightarrow> number \<Rightarrow> bool" where
  "js_less NaN _ = False"
| "js_less _ NaN = False"
| "js_less (Num a) (Num b) = (a < b)"
| "js_less PosInfinity _ = False"
| "js_less _ NegInfinity = False"
| "js_less _ _ = True"

text \<open>\<^verbatim>\<open>Math.max(a, b)\<close> and \<^verbatim>\<open>Math.min(a, b)\<close>: NaN if either argument is NaN.\<close>

fun Math_max :: "number \<Rightarrow> number \<Rightarrow> number" where
  "Math_max NaN _ = NaN"
| "Math_max _ NaN = NaN"
| "Math_max a b = (if js_le a b then b else a)"

fun Math_min :: "number \<Rightarrow> number \<Rightarrow> number" where
  "Math_min NaN _ = NaN"
| "Math_min _ NaN = NaN"
| "Math_min a b = (if js_le a b then a else b)"

text \<open>\<^verbatim>\<open>Math.floor(a)\<close>: the special values are returned as they are.\<close>

fun Math_floor :: "number \<Rightarrow> number" where
  "Math_floor (Num a) = Num (of_int \<lfloor>a\<rfloor>)"
| "Math_floor a = a"

section \<open>Rounding to binary64\<close>

text \<open>
  A JavaScript number is a value of the IEEE 754 binary64 format: 53 significant bits,
  exponents from \<open>-1022\<close> to \<open>1023\<close>. Every arithmetic operator returns the value of the
  format nearest to the exact result, a tie going to the value whose last bit is even.

  \<open>rne\<close> rounds a real number to the nearest integer, ties to even.
\<close>

definition rne :: "real \<Rightarrow> int" where
  "rne z =
     (let m = \<lfloor>z\<rfloor>; f = z - of_int m
      in if f < 1 / 2 then m else if 1 / 2 < f then m + 1
         else if even m then m else m + 1)"

text \<open>
  The binary exponent of a positive real \<open>x\<close>, the integer \<open>e\<close> with
  \<open>2 powi e \<le> x < 2 powi (e + 1)\<close>, computed from the bit length of an integer.
\<close>

definition exponent :: "real \<Rightarrow> int" where
  "exponent x = (if 1 \<le> x then bitlen \<lfloor>x\<rfloor> - 1 else - bitlen (\<lceil>1 / x\<rceil> - 1))"

text \<open>
  Rounding a positive real \<open>x\<close> of exponent \<open>e\<close>: the values of the format from
  \<open>2 powi e\<close> to \<open>2 powi (e + 1)\<close> are the multiples of \<open>2 powi (e - 52)\<close>, and below
  \<open>2 powi (- 1022)\<close>, in the subnormal range, the multiples of \<open>2 powi (- 1074)\<close>.
\<close>

definition round_magnitude :: "real \<Rightarrow> real" where
  "round_magnitude x =
     (let q = 2 powi (max (exponent x) (- 1022) - 52) in of_int (rne (x / q)) * q)"

text \<open>
  Rounding a real: zero stays zero, a negative real is rounded as its magnitude, and a
  result of magnitude \<open>2 ^ 1024\<close> or more overflows to an infinity.
\<close>

definition round64 :: "real \<Rightarrow> number" where
  "round64 x =
     (if x = 0 then Num 0
      else if 0 < x
        then (let y = round_magnitude x in if 2 ^ 1024 \<le> y then PosInfinity else Num y)
      else (let y = round_magnitude (- x) in if 2 ^ 1024 \<le> y then NegInfinity else Num (- y)))"

fun binary64 :: "number \<Rightarrow> number" where
  "binary64 (Num a) = round64 a"
| "binary64 n = n"

text \<open>The finite values of the format are the reals that rounding leaves as they are.\<close>

definition is_double :: "real \<Rightarrow> bool" where
  "is_double x = (round64 x = Num x)"

text \<open>The arithmetic operators \<^verbatim>\<open>+\<close>, \<^verbatim>\<open>-\<close>, \<^verbatim>\<open>*\<close> and \<^verbatim>\<open>/\<close> of the source.\<close>

definition add64 :: "number \<Rightarrow> number \<Rightarrow> number" where
  "add64 a b = binary64 (js_add a b)"

definition sub64 :: "number \<Rightarrow> number \<Rightarrow> number" where
  "sub64 a b = binary64 (js_sub a b)"

definition mul64 :: "number \<Rightarrow> number \<Rightarrow> number" where
  "mul64 a b = binary64 (js_mul a b)"

definition div64 :: "number \<Rightarrow> number \<Rightarrow> number" where
  "div64 a b = binary64 (js_div a b)"

section \<open>Scoring\<close>

text \<open>
  \<^verbatim>\<open>
  export function calculateScore(basePoints, responseTime, timeLimit, maxSpeedBonus) {
      const speedRatio = Math.max(0, (timeLimit - responseTime) / timeLimit);
      const speedBonus = Math.floor(speedRatio * maxSpeedBonus);
      return basePoints + speedBonus;
  }
  \<close>
\<close>

definition calculateScore :: "number \<Rightarrow> number \<Rightarrow> number \<Rightarrow> number \<Rightarrow> number" where
  "calculateScore basePoints responseTime timeLimit maxSpeedBonus =
     (let speedRatio = Math_max (Num 0) (div64 (sub64 timeLimit responseTime) timeLimit);
          speedBonus = Math_floor (mul64 speedRatio maxSpeedBonus)
      in add64 basePoints speedBonus)"


definition POINTS_INCORRECT :: number where
  "POINTS_INCORRECT = Num 0"


definition STREAK_MULTIPLIER :: number where
  "STREAK_MULTIPLIER = round64 (11 / 10)"

definition MAX_STREAK_MULTIPLIER :: number where
  "MAX_STREAK_MULTIPLIER = Num 2"



text \<open>
  Modelled from the spec: the scoring engine
  \<^verbatim>\<open>score(isCorrect, responseTimeMs, timeLimitMs, basePoints, maxSpeedBonus, currentStreak)\<close>
  of its section 4.2, which the repository does not implement: it has the formula for a
  correct answer, \<^verbatim>\<open>calculateScore\<close>, and the constant \<^verbatim>\<open>POINTS_INCORRECT\<close>, and no
  function that scores an answer by its correctness. By the specification an incorrect
  or absent answer (a timeout), for which \<^verbatim>\<open>isCorrect\<close> is false, earns \<open>0\<close> points, the
  value of \<^verbatim>\<open>POINTS_INCORRECT\<close>, and a correct answer earns
  \<open>basePoints + floor(speedRatio * maxSpeedBonus)\<close>, which is \<^verbatim>\<open>calculateScore\<close>. The
  streak multiplier, optional in the specification, is a separate scaling
  (\<^verbatim>\<open>calculateStreakMultiplier\<close>) and not part of this function, which so has no use for
  the streak.
\<close>

definition score_spec :: "bool \<Rightarrow> number \<Rightarrow> number \<Rightarrow> number \<Rightarrow> number \<Rightarrow> number" where
  "score_spec isCorrect responseTimeMs timeLimitMs basePoints maxSpeedBonus =
     (if isCorrect then calculateScore basePoints responseTimeMs timeLimitMs maxSpeedBonus
      else POINTS_INCORRECT)"

text \<open>
  \<^verbatim>\<open>
  export function calculateStreakMultiplier(streak, baseMultiplier, maxMultiplier) {
      if (streak <= 1) return 1;
      const multiplier = 1 + (streak - 1) * (baseMultiplier - 1);
      return Math.min(multiplier, maxMultiplier);
  }
  \<close>
\<close>

definition calculateStreakMultiplier :: "number \<Rightarrow> number \<Rightarrow> number \<Rightarrow> number" where
  "calculateStreakMultiplier streak baseMultiplier maxMultiplier =
     (if js_le streak (Num 1) then Num 1
      else
        (let multiplier =
               add64 (Num 1) (mul64 (sub64 streak (Num 1)) (sub64 baseMultiplier (Num 1)))
         in Math_min multiplier maxMultiplier))"

text \<open>
  The streak multiplier in the words of the specification, with the arithmetic of
  JavaScript numbers: \<open>min(1 + (streak - 1) * (streakFactor - 1), maxStreakMultiplier)\<close>.
\<close>

definition spec_streakMultiplier :: "number \<Rightarrow> number \<Rightarrow> number \<Rightarrow> number" where
  "spec_streakMultiplier streak streakFactor maxStreakMultiplier =
     Math_min
       (add64 (Num 1) (mul64 (sub64 streak (Num 1)) (sub64 streakFactor (Num 1))))
       maxStreakMultiplier"

section \<open>Arrays and sorting\<close>

text \<open>
  \<^verbatim>\<open>array[i]\<close> for a number \<open>i\<close>: the element when \<open>i\<close> is an integer index in range,
  \<^verbatim>\<open>undefined\<close> (here \<open>None\<close>) otherwise.
\<close>

definition array_get :: "'a list \<Rightarrow> number \<Rightarrow> 'a option" where
  "array_get array i =
     (case i of
        Num a \<Rightarrow>
          if 0 \<le> a \<and> a < real (length array) \<and> of_int \<lfloor>a\<rfloor> = a
          then Some (array ! nat \<lfloor>a\<rfloor>) else None
      | _ \<Rightarrow> None)"

text \<open>
  \<^verbatim>\<open>Array.prototype.sort(comparefn)\<close> is stable, and for a consistent comparator its
  result is the unique stable arrangement; it is modelled as insertion from the right,
  where an element moves behind its right neighbour only when \<^verbatim>\<open>comparefn\<close> returns a
  value greater than zero (NaN counts as zero).
\<close>

fun insert_by :: "('a \<Rightarrow> 'a \<Rightarrow> number) \<Rightarrow> 'a \<Rightarrow> 'a list \<Rightarrow> 'a list" where
  "insert_by comparefn x [] = [x]"
| "insert_by comparefn x (y # ys) =
     (if js_less (Num 0) (comparefn x y) then y # insert_by comparefn x ys else x # y # ys)"

definition Array_sort :: "('a \<Rightarrow> 'a \<Rightarrow> number) \<Rightarrow> 'a list \<Rightarrow> 'a list" where
  "Array_sort comparefn array = foldr (insert_by comparefn) array []"

text \<open>
  An array that may hold \<^verbatim>\<open>undefined\<close>: the sort moves every \<^verbatim>\<open>undefined\<close> to the end
  and never passes it to the comparator.
\<close>

definition Array_sort_undefined ::
  "('a \<Rightarrow> 'a \<Rightarrow> number) \<Rightarrow> 'a option list \<Rightarrow> 'a option list" where
  "Array_sort_undefined comparefn array =
     map Some (Array_sort comparefn (List.map_filter (\<lambda>v. v) array))
     @ filter (\<lambda>v. v = None) array"

text \<open>\<^verbatim>\<open>array.findIndex(predicate)\<close>: the first index whose element passes, or \<open>-1\<close>.\<close>

fun findIndex :: "('a \<Rightarrow> bool) \<Rightarrow> 'a list \<Rightarrow> int" where
  "findIndex predicate [] = - 1"
| "findIndex predicate (x # xs) =
     (if predicate x then 0
      else (let i = findIndex predicate xs in if i < 0 then - 1 else i + 1))"

section \<open>Players and ranking\<close>

text \<open>
  A player object, with the fields the utility functions read. The score is an integer
  (the scores are sums of \<^verbatim>\<open>basePoints + Math.floor(...)\<close> over integer settings), which
  makes the comparator of \<^verbatim>\<open>getPlayerRank\<close> consistent. A player object may carry more
  fields (the record is extensible); \<^verbatim>\<open>PlayerResult\<close> adds the number of correct answers.
\<close>

record player =
  player_id :: string
  score :: int
  isReady :: bool

record player_result = player +
  correctAnswers :: nat

text \<open>
  \<^verbatim>\<open>
  export function getPlayerRank(players, playerId) {
      const sortedPlayers = [...players].sort((a, b) => b.score - a.score);
      const playerIndex = sortedPlayers.findIndex(p => p.id === playerId);
      return playerIndex + 1;
  }
  \<close>
\<close>

definition sortedPlayers :: "'a player_scheme list \<Rightarrow> 'a player_scheme list" where
  "sortedPlayers players_list =
     Array_sort (\<lambda>a b. js_sub (Num (of_int (score b))) (Num (of_int (score a)))) players_list"

definition getPlayerRank :: "'a player_scheme list \<Rightarrow> string \<Rightarrow> int" where
  "getPlayerRank players_list playerId =
     (let playerIndex = findIndex (\<lambda>p. player_id p = playerId) (sortedPlayers players_list)
      in playerIndex + 1)"

section \<open>Lobbies\<close>

definition MIN_PLAYERS_TO_START :: nat where
  "MIN_PLAYERS_TO_START = 2"

datatype lobby_status = waiting | starting | active | finished | abandoned

record lobby =
  lobbyId :: string
  hostId :: string
  players :: "player list"
  maxPlayers :: number
  status :: lobby_status

text \<open>
  \<^verbatim>\<open>
  export function hasAvailableSlots(lobby) {
      return lobby.players.length < lobby.maxPlayers;
  }
  export function canStartGame(lobby) {
      const readyPlayers = lobby.players.filter(p => p.isReady);
      return readyPlayers.length >= 2 && readyPlayers.length === lobby.players.length;
  }
  \<close>
\<close>

definition hasAvailableSlots :: "lobby \<Rightarrow> bool" where
  "hasAvailableSlots l = js_less (Num (real (length (players l)))) (maxPlayers l)"

definition canStartGame :: "lobby \<Rightarrow> bool" where
  "canStartGame l =
     (let readyPlayers = filter (\<lambda>p. isReady p) (players l)
      in length readyPlayers \<ge> 2 \<and> length readyPlayers = length (players l))"

text \<open>The error codes of \<^verbatim>\<open>LobbyErrors\<close> that a join can raise.\<close>

datatype lobby_error = LOBBY_NOT_FOUND | LOBBY_FULL | LOBBY_CLOSED | ALREADY_IN_LOBBY

text \<open>
  Modelled from the spec: \<^verbatim>\<open>joinLobby\<close>, which the repository does not implement (its
  \<^verbatim>\<open>LobbyService\<close> has no join, the tests mock it). The specification gives
  \<^verbatim>\<open>joinLobby(lobbyId, player) \<rightarrow> Lobby\<close>, which fails \<^verbatim>\<open>LobbyFull\<close> if the lobby is at
  capacity, \<^verbatim>\<open>LobbyClosed\<close> if its status is not \<^verbatim>\<open>waiting\<close>, and \<^verbatim>\<open>AlreadyInLobby\<close> if
  the player is already present; the checks are made in that order, capacity is decided by
  \<^verbatim>\<open>hasAvailableSlots\<close>, an unknown lobby is \<^verbatim>\<open>LobbyErrors.notFound\<close>, and a player who
  joins is added at the end of the roster. The registry of lobbies is passed in and
  returned.
\<close>

definition joinLobby ::
  "(string \<rightharpoonup> lobby) \<Rightarrow> string \<Rightarrow> player \<Rightarrow> (lobby_error + lobby) \<times> (string \<rightharpoonup> lobby)" where
  "joinLobby registry lid p =
     (case registry lid of
        None \<Rightarrow> (Inl LOBBY_NOT_FOUND, registry)
      | Some l \<Rightarrow>
          if \<not> hasAvailableSlots l then (Inl LOBBY_FULL, registry)
          else if status l \<noteq> waiting then (Inl LOBBY_CLOSED, registry)
          else if player_id p \<in> set (map player_id (players l))
            then (Inl ALREADY_IN_LOBBY, registry)
          else
            (let l' = l\<lparr>players := players l @ [p]\<rparr>
             in (Inr l', registry(lid \<mapsto> l'))))"

section \<open>Validation schemas\<close>

text \<open>
  The Zod schemas of \<^verbatim>\<open>shared/errors.js\<close>. A value to be parsed is a record whose fields
  have the JavaScript type the schema asks for, so that only the checks on the values
  remain; \<^verbatim>\<open>schema.parse\<close> returns the data or throws a \<^verbatim>\<open>ZodError\<close>, which
  \<^verbatim>\<open>validateData\<close> reports under the code \<^verbatim>\<open>VALIDATION_ERROR\<close>.
\<close>

datatype parse_error = ZodError

text \<open>\<^verbatim>\<open>z.number()\<close> rejects NaN.\<close>

definition z_number :: "number \<Rightarrow> bool" where
  "z_number n = (n \<noteq> NaN)"

text \<open>\<^verbatim>\<open>.int()\<close>: \<^verbatim>\<open>Number.isInteger\<close>, false on the infinities and NaN.\<close>

definition z_int :: "number \<Rightarrow> bool" where
  "z_int n = (case n of Num a \<Rightarrow> of_int \<lfloor>a\<rfloor> = a | _ \<Rightarrow> False)"

text \<open>\<^verbatim>\<open>.min(m)\<close> fails when \<^verbatim>\<open>value < m\<close>, \<^verbatim>\<open>.max(m)\<close> when \<^verbatim>\<open>value > m\<close>.\<close>

definition z_min :: "real \<Rightarrow> number \<Rightarrow> bool" where
  "z_min m n = (\<not> js_less n (Num m))"

definition z_max :: "real \<Rightarrow> number \<Rightarrow> bool" where
  "z_max m n = (\<not> js_less (Num m) n)"

text \<open>An optional field passes when it is absent.\<close>

definition z_optional :: "('a \<Rightarrow> bool) \<Rightarrow> 'a option \<Rightarrow> bool" where
  "z_optional check v = (case v of None \<Rightarrow> True | Some x \<Rightarrow> check x)"

definition MIN_TIME_PER_QUESTION :: real where
  "MIN_TIME_PER_QUESTION = 5"

definition MAX_TIME_PER_QUESTION :: real where
  "MAX_TIME_PER_QUESTION = 120"

definition QUESTION_CATEGORIES :: "string list" where
  "QUESTION_CATEGORIES =
     [''general-knowledge'', ''science'', ''history'', ''geography'', ''sports'',
      ''entertainment'', ''arts-literature'', ''technology'', ''nature'', ''mythology'']"

definition DIFFICULTY_LEVELS :: "string list" where
  "DIFFICULTY_LEVELS = [''easy'', ''medium'', ''hard'']"

record question =
  q_id :: string
  q_text :: string
  q_options :: "string list"
  q_correctIndex :: number
  q_category :: string
  q_difficulty :: string
  q_timeLimit :: number
  q_imageUrl :: "string option"
  q_explanation :: "string option"
  q_points :: "number option"

text \<open>
  \<^verbatim>\<open>
  export const questionSchema = z.object({
      id: z.string().min(1),
      text: z.string().min(1).max(500),
      options: z.array(z.string().min(1).max(200)).min(2).max(6),
      correctIndex: z.number().int().min(0),
      category: z.enum(QUESTION_CATEGORIES),
      difficulty: z.enum(DIFFICULTY_LEVELS),
      timeLimit: z.number().int().min(MIN_TIME_PER_QUESTION).max(MAX_TIME_PER_QUESTION),
      imageUrl: z.string().url().optional(),
      explanation: z.string().max(1000).optional(),
      points: z.number().int().min(1).max(1000).optional()
  }).refine(data => data.correctIndex < data.options.length, ...);
  \<close>
  The URL test of Zod is a parameter.
\<close>

definition questionSchema_object :: "(string \<Rightarrow> bool) \<Rightarrow> question \<Rightarrow> bool" where
  "questionSchema_object is_url q =
     (1 \<le> length (q_id q)
      \<and> 1 \<le> length (q_text q) \<and> length (q_text q) \<le> 500
      \<and> list_all (\<lambda>opt. 1 \<le> length opt \<and> length opt \<le> 200) (q_options q)
      \<and> 2 \<le> length (q_options q) \<and> length (q_options q) \<le> 6
      \<and> z_number (q_correctIndex q) \<and> z_int (q_correctIndex q) \<and> z_min 0 (q_correctIndex q)
      \<and> List.member QUESTION_CATEGORIES (q_category q)
      \<and> List.member DIFFICULTY_LEVELS (q_difficulty q)
      \<and> z_number (q_timeLimit q) \<and> z_int (q_timeLimit q)
      \<and> z_min MIN_TIME_PER_QUESTION (q_timeLimit q)
      \<and> z_max MAX_TIME_PER_QUESTION (q_timeLimit q)
      \<and> z_optional is_url (q_imageUrl q)
      \<and> z_optional (\<lambda>e. length e \<le> 1000) (q_explanation q)
      \<and> z_optional (\<lambda>p. z_number p \<and> z_int p \<and> z_min 1 p \<and> z_max 1000 p) (q_points q))"

definition questionSchema_refine :: "question \<Rightarrow> bool" where
  "questionSchema_refine data =
     js_less (q_correctIndex data) (Num (real (length (q_options data))))"

definition questionSchema :: "(string \<Rightarrow> bool) \<Rightarrow> question \<Rightarrow> parse_error + question" where
  "questionSchema is_url q =
     (if questionSchema_object is_url q \<and> questionSchema_refine q then Inr q
      else Inl ZodError)"

record submitAnswer =
  a_gameId :: string
  a_questionId :: string
  a_playerId :: string
  a_selectedIndex :: number
  a_responseTime :: number

text \<open>
  \<^verbatim>\<open>
  export const userIdSchema = z.string().min(1).max(128);
  export const submitAnswerSchema = z.object({
      gameId: gameIdSchema,
      questionId: z.string().min(1),
      playerId: userIdSchema,
      selectedIndex: z.number().int().min(0).max(5),
      responseTime: z.number().min(0).max(300000)
  });
  \<close>
  The UUID test of \<^verbatim>\<open>gameIdSchema\<close> is a parameter.
\<close>

definition userIdSchema :: "string \<Rightarrow> bool" where
  "userIdSchema s = (1 \<le> length s \<and> length s \<le> 128)"

definition submitAnswerSchema ::
  "(string \<Rightarrow> bool) \<Rightarrow> submitAnswer \<Rightarrow> parse_error + submitAnswer" where
  "submitAnswerSchema is_uuid a =
     (if is_uuid (a_gameId a)
         \<and> 1 \<le> length (a_questionId a)
         \<and> userIdSchema (a_playerId a)
         \<and> z_number (a_selectedIndex a) \<and> z_int (a_selectedIndex a)
         \<and> z_min 0 (a_selectedIndex a) \<and> z_max 5 (a_selectedIndex a)
         \<and> z_number (a_responseTime a)
         \<and> z_min 0 (a_responseTime a) \<and> z_max 300000 (a_responseTime a)
      then Inr a else Inl ZodError)"

section \<open>Lobby identifiers\<close>

text \<open>The character class \<^verbatim>\<open>[A-Z0-9]\<close>, by character code.\<close>

definition upper_alnum :: "char \<Rightarrow> bool" where
  "upper_alnum c =
     (let n = (of_char c :: nat) in (65 \<le> n \<and> n \<le> 90) \<or> (48 \<le> n \<and> n \<le> 57))"

text \<open>
  The regular expressions \<^verbatim>\<open>/^[A-Z0-9]{6}$/\<close> and \<^verbatim>\<open>/^[A-Z0-9]+$/\<close>: without the
  multiline flag the anchors are the two ends of the string.
\<close>

fun match_exactly :: "nat \<Rightarrow> (char \<Rightarrow> bool) \<Rightarrow> string \<Rightarrow> bool" where
  "match_exactly 0 cls s = (s = [])"
| "match_exactly (Suc n) cls [] = False"
| "match_exactly (Suc n) cls (c # cs) = (cls c \<and> match_exactly n cls cs)"

fun match_plus :: "(char \<Rightarrow> bool) \<Rightarrow> string \<Rightarrow> bool" where
  "match_plus cls [] = False"
| "match_plus cls (c # cs) = (cls c \<and> (cs = [] \<or> match_plus cls cs))"

text \<open>
  \<^verbatim>\<open>
  export function isValidLobbyId(id) {
      return typeof id === 'string' && /^[A-Z0-9]{6}$/.test(id);
  }
  export const lobbyIdSchema = z.string().length(6).regex(/^[A-Z0-9]+$/);
  \<close>
  The argument is a string here.
\<close>

definition isValidLobbyId :: "string \<Rightarrow> bool" where
  "isValidLobbyId ident = match_exactly 6 upper_alnum ident"

definition lobbyIdSchema :: "string \<Rightarrow> parse_error + string" where
  "lobbyIdSchema s =
     (if length s = 6 \<and> match_plus upper_alnum s then Inr s else Inl ZodError)"

text \<open>
  \<^verbatim>\<open>string.charAt(pos)\<close>: the position is converted to an integer (NaN becomes \<open>0\<close>, a
  fraction is truncated towards zero); out of range the result is the empty string.
\<close>

definition charAt :: "string \<Rightarrow> number \<Rightarrow> string" where
  "charAt s pos =
     (case pos of
        Num a \<Rightarrow>
          (let i = (if a < 0 then \<lceil>a\<rceil> else \<lfloor>a\<rfloor>)
           in if 0 \<le> i \<and> i < int (length s) then [s ! nat i] else [])
      | NaN \<Rightarrow> (if s = [] then [] else [s ! 0])
      | _ \<Rightarrow> [])"

text \<open>
  \<^verbatim>\<open>
  export function generateLobbyId() {
      const chars = 'ABCDEFGHIJKLMNOPQRSTUVWXYZ0123456789';
      let result = '';
      for (let i = 0; i < 6; i++) {
          result += chars.charAt(Math.floor(Math.random() * chars.length));
      }
      return result;
  }
  \<close>
  \<^verbatim>\<open>Math.random\<close> is a parameter: \<open>random i\<close> is the value of the call made in
  iteration \<open>i\<close>, a number that ECMAScript places in \<open>[0, 1)\<close>.
\<close>

definition lobbyId_chars :: string where
  "lobbyId_chars = ''ABCDEFGHIJKLMNOPQRSTUVWXYZ0123456789''"

function generateLobbyId_loop :: "(nat \<Rightarrow> real) \<Rightarrow> nat \<Rightarrow> string \<Rightarrow> string" where
  "generateLobbyId_loop random i result =
     (if i < 6
      then generateLobbyId_loop random (Suc i)
             (result @ charAt lobbyId_chars
                (Math_floor (js_mul (Num (random i)) (Num (real (length lobbyId_chars))))))
      else result)"
  by pat_completeness auto
termination
  by (relation "measure (\<lambda>(random, i, result). 6 - i)") auto

declare generateLobbyId_loop.simps [simp del]

definition generateLobbyId :: "(nat \<Rightarrow> real) \<Rightarrow> string" where
  "generateLobbyId random = generateLobbyId_loop random 0 []"

section \<open>The fifty-fifty powerup\<close>

text \<open>
  \<^verbatim>\<open>
  export function getRandomElement(array) {
      return array[Math.floor(Math.random() * array.length)];
  }
  export function applyFiftyFifty(question) {
      const correctIndex = question.correctIndex;
      const wrongIndices = question.options
          .map((_, index) => index)
          .filter(index => index !== correctIndex);
      const keepWrong = getRandomElement(wrongIndices);
      return [correctIndex, keepWrong].sort((a, b) => a - b);
  }
  \<close>
  The value of the one call of \<^verbatim>\<open>Math.random\<close> is the parameter \<open>random\<close>.
\<close>

definition getRandomElement :: "real \<Rightarrow> 'a list \<Rightarrow> 'a option" where
  "getRandomElement random array =
     array_get array (Math_floor (js_mul (Num random) (Num (real (length array)))))"

definition applyFiftyFifty :: "real \<Rightarrow> question \<Rightarrow> number option list" where
  "applyFiftyFifty random q =
     (let correctIndex = q_correctIndex q;
          wrongIndices =
            filter (\<lambda>index. index \<noteq> correctIndex)
              (map (\<lambda>index. Num (real index)) [0..<length (q_options q)]);
          keepWrong = getRandomElement random wrongIndices
      in Array_sort_undefined (\<lambda>a b. js_sub a b) [Some correctIndex, keepWrong])"

section \<open>Example values\<close>

text \<open>
  A stand-in for the UUID test in the examples: five groups of 8, 4, 4, 4 and 12
  hexadecimal digits, separated by hyphens.
\<close>

definition uuid_shape :: "string \<Rightarrow> bool" where
  "uuid_shape s =
     list_all2
       (\<lambda>p c. if p = CHR ''-'' then c = CHR ''-'' else c \<in> set ''0123456789abcdefABCDEF'')
       ''xxxxxxxx-xxxx-xxxx-xxxx-xxxxxxxxxxxx'' s"

definition answer0 :: submitAnswer where
  "answer0 = \<lparr>a_gameId = ''123e4567-e89b-42d3-a456-426614174000'', a_questionId = ''q1'',
     a_playerId = ''p1'', a_selectedIndex = Num 2, a_responseTime = Num 1500\<rparr>"

definition lobby0 :: lobby where
  "lobby0 = \<lparr>lobbyId = ''ABC123'', hostId = ''h'',
     players = [\<lparr>player_id = ''h'', score = 0, isReady = True\<rparr>,
                \<lparr>player_id = ''p1'', score = 0, isReady = True\<rparr>],
     maxPlayers = Num 4, status = waiting\<rparr>"

definition lobby4 :: lobby where
  "lobby4 = \<lparr>lobbyId = ''ABC123'', hostId = ''h'',
     players = [\<lparr>player_id = ''h'', score = 0, isReady = True\<rparr>,
                \<lparr>player_id = ''p1'', score = 0, isReady = True\<rparr>,
                \<lparr>player_id = ''p2'', score = 0, isReady = False\<rparr>,
                \<lparr>player_id = ''p3'', score = 0, isReady = False\<rparr>],
     maxPlayers = Num 4, status = waiting\<rparr>"

definition playerA1 :: player_result where
  "playerA1 = \<lparr>player_id = ''A'', score = 100, isReady = True, correctAnswers = 1\<rparr>"

definition playerB3 :: player_result where
  "playerB3 = \<lparr>player_id = ''B'', score = 100, isReady = True, correctAnswers = 3\<rparr>"

definition playerA3 :: player_result where
  "playerA3 = \<lparr>player_id = ''A'', score = 100, isReady = True, correctAnswers = 3\<rparr>"

definition playerB1 :: player_result where
  "playerB1 = \<lparr>player_id = ''B'', score = 100, isReady = True, correctAnswers = 1\<rparr>"

definition playerC :: player_result where
  "playerC = \<lparr>player_id = ''C'', score = 250, isReady = True, correctAnswers = 3\<rparr>"

definition question0 :: question where
  "question0 = \<lparr>q_id = ''q1'', q_text = ''Capital of France?'',
     q_options = [''Rome'', ''Bern'', ''Paris'', ''Oslo''],
     q_correctIndex = Num 2, q_category = ''geography'', q_difficulty = ''easy'',
     q_timeLimit = Num 30, q_imageUrl = None, q_explanation = None, q_points = None\<rparr>"

section \<open>Properties of rounding\<close>

text \<open>Rounding to the nearest integer fixes the integers and is monotone.\<close>

lemma rne_of_int: "rne (of_int k) = k"
  by (simp add: rne_def)

lemma rne_range: "\<lfloor>z\<rfloor> \<le> rne z \<and> rne z \<le> \<lfloor>z\<rfloor> + 1"
  by (simp add: rne_def Let_def)

lemma rne_mono:
  assumes "z \<le> w"
  shows "rne z \<le> rne w"
proof (cases "\<lfloor>z\<rfloor> = \<lfloor>w\<rfloor>")
  case True
  then have "z - of_int \<lfloor>z\<rfloor> \<le> w - of_int \<lfloor>w\<rfloor>"
    using assms by simp
  then show ?thesis
    using True by (auto simp: rne_def Let_def)
next
  case False
  moreover have "\<lfloor>z\<rfloor> \<le> \<lfloor>w\<rfloor>"
    using assms by (rule floor_mono)
  ultimately have "\<lfloor>z\<rfloor> + 1 \<le> \<lfloor>w\<rfloor>" by simp
  then show ?thesis
    using rne_range [of z] rne_range [of w] by linarith
qed

text \<open>The computed exponent is the binary exponent.\<close>

lemma exponent_bounds:
  assumes "0 < x"
  shows "2 powi exponent x \<le> x \<and> x < 2 powi (exponent x + 1)"
proof (cases "1 \<le> x")
  case True
  let ?n = "\<lfloor>x\<rfloor>"
  let ?b = "bitlen ?n"
  from True have n: "0 < ?n" by simp
  from bitlen_bounds [OF n] have lo: "2 ^ nat (?b - 1) \<le> ?n" and hi: "?n < 2 ^ nat ?b"
    by simp_all
  from n have b1: "1 \<le> ?b"
    by (simp add: bitlen_alt_def)
  have e: "exponent x = ?b - 1"
    using True by (simp add: exponent_def)
  have "(2::real) powi (?b - 1) = 2 ^ nat (?b - 1)"
    using b1 by (simp add: power_int_nonneg_exp)
  also have "\<dots> = of_int (2 ^ nat (?b - 1))" by simp
  also have "\<dots> \<le> of_int ?n" using lo by (simp only: of_int_le_iff)
  also have "\<dots> \<le> x" by simp
  finally have below: "2 powi (?b - 1) \<le> x" .
  have "?n + 1 \<le> 2 ^ nat ?b" using hi by simp
  then have "of_int (?n + 1) \<le> (of_int (2 ^ nat ?b) :: real)" by (simp only: of_int_le_iff)
  then have "of_int ?n + 1 \<le> (2 ^ nat ?b :: real)" by simp
  moreover have "x < of_int ?n + 1" by linarith
  ultimately have "x < 2 ^ nat ?b" by linarith
  moreover have "(2::real) powi ?b = 2 ^ nat ?b"
    using b1 by (simp add: power_int_nonneg_exp)
  ultimately have above: "x < 2 powi (?b - 1 + 1)" by simp
  from below above e show ?thesis by simp
next
  case False
  let ?y = "1 / x"
  let ?n = "\<lceil>?y\<rceil>"
  let ?m = "?n - 1"
  let ?b = "bitlen ?m"
  from False assms have y1: "1 < ?y" by (simp add: field_simps)
  then have "2 \<le> ?n" by (simp add: le_ceiling_iff)
  then have m: "0 < ?m" by simp
  from bitlen_bounds [OF m] have lo: "2 ^ nat (?b - 1) \<le> ?m" and hi: "?m < 2 ^ nat ?b"
    by simp_all
  from m have b1: "1 \<le> ?b"
    by (simp add: bitlen_alt_def)
  have e: "exponent x = - ?b"
    using False by (simp add: exponent_def)
  have "?n \<le> 2 ^ nat ?b" using hi by simp
  then have "?y \<le> of_int (2 ^ nat ?b)" by (simp only: ceiling_le_iff)
  then have "?y \<le> 2 ^ nat ?b" by simp
  then have "1 / 2 ^ nat ?b \<le> x"
    using assms by (simp add: field_simps)
  moreover have "(2::real) powi (- ?b) = 1 / 2 ^ nat ?b"
    using b1 by (simp add: power_int_minus_divide power_int_nonneg_exp)
  ultimately have below: "2 powi (- ?b) \<le> x" by simp
  have "2 ^ nat (?b - 1) < ?n" using lo by simp
  then have "of_int (2 ^ nat (?b - 1)) < ?y" by (simp only: less_ceiling_iff)
  then have "2 ^ nat (?b - 1) < ?y" by simp
  then have "x < 1 / 2 ^ nat (?b - 1)"
    using assms by (simp add: field_simps)
  moreover have "(2::real) powi (- ?b + 1) = 1 / 2 ^ nat (?b - 1)"
  proof -
    have "- ?b + 1 = - (?b - 1)" by simp
    then have "(2::real) powi (- ?b + 1) = 1 / 2 powi (?b - 1)"
      by (simp only: power_int_minus_divide)
    then show ?thesis using b1 by (simp add: power_int_nonneg_exp)
  qed
  ultimately have above: "x < 2 powi (- ?b + 1)" by simp
  from below above e show ?thesis by simp
qed

lemma exponent_mono:
  assumes "0 < x" and "x \<le> y"
  shows "exponent x \<le> exponent y"
proof (rule ccontr)
  assume "\<not> exponent x \<le> exponent y"
  then have "exponent y + 1 \<le> exponent x" by simp
  then have "(2::real) powi (exponent y + 1) \<le> 2 powi exponent x"
    by (intro power_int_increasing) simp_all
  moreover have "y < 2 powi (exponent y + 1)"
    using exponent_bounds [of y] assms by simp
  moreover have "2 powi exponent x \<le> x"
    using exponent_bounds [OF assms(1)] by simp
  ultimately show False using assms(2) by linarith
qed

text \<open>Rounding on a grid of step \<open>q\<close> does not cross a point of the grid.\<close>

lemma grid_le:
  assumes "0 < q" and "x \<le> of_int k * q"
  shows "of_int (rne (x / q)) * q \<le> of_int k * q"
proof -
  have "x / q \<le> of_int k"
    using assms by (simp add: field_simps)
  then have "rne (x / q) \<le> rne (of_int k)" by (rule rne_mono)
  then have "rne (x / q) \<le> k" by (simp add: rne_of_int)
  then have "(of_int (rne (x / q)) :: real) \<le> of_int k" by (simp only: of_int_le_iff)
  then show ?thesis using assms(1) by (simp add: mult_right_mono)
qed

lemma grid_ge:
  assumes "0 < q" and "of_int k * q \<le> x"
  shows "of_int k * q \<le> of_int (rne (x / q)) * q"
proof -
  have "of_int k \<le> x / q"
    using assms by (simp add: field_simps)
  then have "rne (of_int k) \<le> rne (x / q)" by (rule rne_mono)
  then have "k \<le> rne (x / q)" by (simp add: rne_of_int)
  then have "(of_int k :: real) \<le> of_int (rne (x / q))" by (simp only: of_int_le_iff)
  then show ?thesis using assms(1) by (simp add: mult_right_mono)
qed

text \<open>The two ends of a binade are points of its grid.\<close>

lemma binade_end: "(2::real) powi (e + 1) = of_int (2 ^ 53) * 2 powi (e - 52)"
proof -
  have "e + 1 = 53 + (e - 52)" by simp
  then have "(2::real) powi (e + 1) = 2 powi (53 + (e - 52))" by (rule arg_cong)
  also have "\<dots> = 2 powi 53 * 2 powi (e - 52)" by (rule power_int_add) simp
  finally show ?thesis by simp
qed

lemma binade_start: "(2::real) powi e = of_int (2 ^ 52) * 2 powi (e - 52)"
proof -
  have "e = 52 + (e - 52)" by simp
  then have "(2::real) powi e = 2 powi (52 + (e - 52))" by (rule arg_cong)
  also have "\<dots> = 2 powi 52 * 2 powi (e - 52)" by (rule power_int_add) simp
  finally show ?thesis by simp
qed

text \<open>Rounding is monotone: within a binade by \<open>rne\<close>, across binades by their ends.\<close>

lemma round_magnitude_mono:
  assumes "0 < x" and "x \<le> y"
  shows "round_magnitude x \<le> round_magnitude y"
proof -
  let ?ex = "max (exponent x) (- 1022)"
  let ?ey = "max (exponent y) (- 1022)"
  let ?qx = "(2::real) powi (?ex - 52)"
  let ?qy = "(2::real) powi (?ey - 52)"
  have y: "0 < y" using assms by simp
  have qx: "0 < ?qx" and qy: "0 < ?qy" by simp_all
  have le: "?ex \<le> ?ey"
    using exponent_mono [OF assms] by simp
  show ?thesis
  proof (cases "?ex = ?ey")
    case True
    have "x / ?qx \<le> y / ?qx"
      using assms(2) qx by (simp add: divide_right_mono)
    then have "rne (x / ?qx) \<le> rne (y / ?qx)" by (rule rne_mono)
    then have "(of_int (rne (x / ?qx)) :: real) \<le> of_int (rne (y / ?qx))"
      by (simp only: of_int_le_iff)
    then have "of_int (rne (x / ?qx)) * ?qx \<le> of_int (rne (y / ?qx)) * ?qx"
      using qx by (simp add: mult_right_mono)
    then show ?thesis
      using True by (simp add: round_magnitude_def Let_def)
  next
    case False
    with le have lt: "?ex + 1 \<le> ?ey" by simp
    then have ey: "?ey = exponent y" by simp
    have "x < 2 powi (exponent x + 1)"
      using exponent_bounds [OF assms(1)] by simp
    also have "\<dots> \<le> 2 powi (?ex + 1)"
      by (intro power_int_increasing) simp_all
    finally have "x \<le> of_int (2 ^ 53) * ?qx"
      by (simp only: binade_end)
    from grid_le [OF qx this] have "round_magnitude x \<le> of_int (2 ^ 53) * ?qx"
      by (simp add: round_magnitude_def Let_def)
    then have up: "round_magnitude x \<le> 2 powi (?ex + 1)"
      by (simp only: binade_end)
    have "2 powi ?ey \<le> y"
      using exponent_bounds [OF y] ey by simp
    then have "of_int (2 ^ 52) * ?qy \<le> y"
      by (simp only: binade_start [symmetric])
    from grid_ge [OF qy this] have "of_int (2 ^ 52) * ?qy \<le> round_magnitude y"
      by (simp add: round_magnitude_def Let_def)
    then have lo: "2 powi ?ey \<le> round_magnitude y"
      by (simp only: binade_start [symmetric])
    have "(2::real) powi (?ex + 1) \<le> 2 powi ?ey"
      using lt by (intro power_int_increasing) simp_all
    with up lo show ?thesis by linarith
  qed
qed

lemma round_magnitude_nonneg:
  assumes "0 < x"
  shows "0 \<le> round_magnitude x"
proof -
  let ?q = "(2::real) powi (max (exponent x) (- 1022) - 52)"
  have q: "0 < ?q" by simp
  have "of_int 0 * ?q \<le> x" using assms by simp
  from grid_ge [OF q this] show ?thesis
    by (simp add: round_magnitude_def Let_def)
qed

lemma round64_not_NaN: "round64 x \<noteq> NaN"
  by (simp add: round64_def Let_def)

lemma round64_mono:
  assumes "x \<le> y"
  shows "js_le (round64 x) (round64 y)"
proof -
  consider "0 < x" | "y < 0" | "x \<le> 0" "0 \<le> y" by linarith
  then show ?thesis
  proof cases
    case 1
    with assms have "0 < y" by simp
    from round_magnitude_mono [OF 1 assms] show ?thesis
      using 1 \<open>0 < y\<close> by (simp add: round64_def Let_def)
  next
    case 2
    with assms have x: "x < 0" by simp
    have "round_magnitude (- y) \<le> round_magnitude (- x)"
      using 2 assms by (intro round_magnitude_mono) simp_all
    then show ?thesis
      using 2 x by (simp add: round64_def Let_def)
  next
    case 3
    have neg: "js_le (round64 x) (Num 0)"
      using 3(1) round_magnitude_nonneg [of "- x"] by (simp add: round64_def Let_def)
    have pos: "js_le (Num 0) (round64 y)"
      using 3(2) round_magnitude_nonneg [of y] by (simp add: round64_def Let_def)
    from neg pos show ?thesis
      by (cases "round64 x"; cases "round64 y") simp_all
  qed
qed

text \<open>
  The unfolding that evaluates a rounding on numerals, and the values \<open>0\<close> and \<open>1\<close> of
  the format.
\<close>

lemmas round64_eval =
  round64_def round_magnitude_def exponent_def rne_def Let_def compute_bitlen

lemma round64_zero: "round64 0 = Num 0"
  by (simp add: round64_def)

lemma is_double_zero: "is_double 0"
  by (simp add: is_double_def round64_def)

lemma is_double_one: "is_double 1"
  by (simp add: is_double_def round64_eval)

text \<open>A rounded value stays on its side of every value of the format.\<close>

lemma round64_le_double:
  assumes "is_double b" and "x \<le> b"
  shows "js_le (round64 x) (Num b)"
  using round64_mono [OF assms(2)] assms(1) by (simp add: is_double_def)

lemma round64_ge_double:
  assumes "is_double a" and "a \<le> x"
  shows "js_le (Num a) (round64 x)"
  using round64_mono [OF assms(2)] assms(1) by (simp add: is_double_def)

lemma round64_between:
  assumes "is_double a" and "is_double b" and "a \<le> x" and "x \<le> b"
  shows "\<exists>y. round64 x = Num y \<and> a \<le> y \<and> y \<le> b"
  using round64_ge_double [OF assms(1,3)] round64_le_double [OF assms(2,4)]
  by (cases "round64 x") simp_all

text \<open>
  The products that scale a random number to an index are modelled exactly. Rounded to
  binary64 they give an index of the same range: for a value \<open>r\<close> of the format in
  \<open>[0, 1)\<close> and a length \<open>n\<close> from \<open>1\<close> to \<open>2 ^ 53\<close>, the floor of the rounded product
  is an integer from \<open>0\<close> to \<open>n - 1\<close>.
\<close>

lemma exponent_eqI:
  assumes "0 < x" and "2 powi e \<le> x" and "x < 2 powi (e + 1)"
  shows "exponent x = e"
proof (rule antisym)
  show "exponent x \<le> e"
  proof (rule ccontr)
    assume "\<not> exponent x \<le> e"
    then have "e + 1 \<le> exponent x" by simp
    then have "(2::real) powi (e + 1) \<le> 2 powi exponent x"
      by (intro power_int_increasing) simp_all
    with exponent_bounds [OF assms(1)] assms(3) show False by linarith
  qed
  show "e \<le> exponent x"
  proof (rule ccontr)
    assume "\<not> e \<le> exponent x"
    then have "exponent x + 1 \<le> e" by simp
    then have "(2::real) powi (exponent x + 1) \<le> 2 powi e"
      by (intro power_int_increasing) simp_all
    with exponent_bounds [OF assms(1)] assms(2) show False by linarith
  qed
qed

lemma rne_le_half: "of_int (rne z) \<le> z + 1 / 2"
proof (cases "z - of_int \<lfloor>z\<rfloor> < 1 / 2")
  case True
  then have "rne z = \<lfloor>z\<rfloor>"
    by (simp add: rne_def Let_def)
  then have "real_of_int (rne z) = of_int \<lfloor>z\<rfloor>" by simp
  then show ?thesis by linarith
next
  case False
  have "rne z \<le> \<lfloor>z\<rfloor> + 1"
    using rne_range [of z] by simp
  then have "real_of_int (rne z) \<le> of_int (\<lfloor>z\<rfloor> + 1)"
    by (simp only: of_int_le_iff)
  then have "real_of_int (rne z) \<le> of_int \<lfloor>z\<rfloor> + 1" by simp
  with False show ?thesis by linarith
qed

lemma double_below_one:
  assumes "is_double r" and "0 < r" and "r < 1"
  shows "r \<le> 1 - 1 / 2 ^ 53"
proof (cases "r < 1 / 2")
  case True
  have "(1::real) / 2 \<le> 1 - 1 / 2 ^ 53" by simp
  with True show ?thesis by linarith
next
  case False
  then have half: "2 powi (- 1) \<le> r" by (simp add: power_int_minus_divide)
  have "r < 2 powi (- 1 + 1)" using assms(3) by simp
  from exponent_eqI [OF assms(2) half this] have e: "exponent r = - 1" .
  let ?m = "rne (r / 2 powi (- 53))"
  have q: "(2::real) powi (- 53) = 1 / 2 ^ 53"
    by (simp add: power_int_minus_divide)
  have "round64 r = Num r"
    using assms(1) by (simp only: is_double_def)
  then have "round_magnitude r = r"
    using assms(2) by (simp add: round64_def Let_def split: if_splits)
  then have r: "r = of_int ?m * (1 / 2 ^ 53)"
    using e by (simp add: round_magnitude_def Let_def q)
  have "?m < 2 ^ 53"
  proof (rule ccontr)
    assume "\<not> ?m < 2 ^ 53"
    then have "2 ^ 53 \<le> ?m" by simp
    then have "real_of_int (2 ^ 53) \<le> real_of_int ?m"
      by (simp only: of_int_le_iff)
    then have "real_of_int (2 ^ 53) * (1 / 2 ^ 53) \<le> real_of_int ?m * (1 / 2 ^ 53)"
      by (rule mult_right_mono) simp
    then have "1 \<le> r" using r by simp
    with assms(3) show False by simp
  qed
  then have "?m \<le> 2 ^ 53 - 1" by simp
  then have "real_of_int ?m \<le> real_of_int (2 ^ 53 - 1)"
    by (simp only: of_int_le_iff)
  then have "real_of_int ?m * (1 / 2 ^ 53) \<le> real_of_int (2 ^ 53 - 1) * (1 / 2 ^ 53)"
    by (rule mult_right_mono) simp
  also have "\<dots> = 1 - 1 / 2 ^ 53" by simp
  finally show ?thesis
    using r by simp
qed

lemma round_magnitude_le_half_step:
  "round_magnitude x \<le> x + 2 powi (max (exponent x) (- 1022) - 52) / 2"
proof -
  let ?q = "(2::real) powi (max (exponent x) (- 1022) - 52)"
  have q: "0 < ?q" by simp
  have "of_int (rne (x / ?q)) * ?q \<le> (x / ?q + 1 / 2) * ?q"
    using rne_le_half [of "x / ?q"] q by (intro mult_right_mono) simp_all
  also have "\<dots> = x + ?q / 2"
    using q by (simp add: field_simps)
  finally show ?thesis
    by (simp add: round_magnitude_def Let_def)
qed

lemma rounded_index_in_range:
  assumes "is_double r" and "0 \<le> r" and "r < 1" and "0 < n" and "n \<le> 2 ^ 53"
  shows "\<exists>k. Math_floor (mul64 (Num r) (Num (real n))) = Num (of_int k) \<and> 0 \<le> k \<and> k < int n"
proof (cases "r = 0")
  case True
  then show ?thesis
    using assms(4) by (simp add: mul64_def round64_zero)
next
  case False
  with assms(2) have r: "0 < r" by simp
  let ?x = "r * real n"
  have n1: "1 \<le> real n" using assms(4) by simp
  have x: "0 < ?x" using r assms(4) by simp
  have below: "round_magnitude ?x < real n"
  proof (cases "- 1022 \<le> exponent ?x")
    case True
    then have "max (exponent ?x) (- 1022) - 52 = exponent ?x - 52" by simp
    with round_magnitude_le_half_step [of ?x]
    have "round_magnitude ?x \<le> ?x + 2 powi (exponent ?x - 52) / 2" by simp
    moreover have "(2::real) powi (exponent ?x - 52) = 2 powi exponent ?x / 2 ^ 52"
      by (simp add: power_int_diff)
    moreover have "2 powi exponent ?x \<le> ?x"
      using exponent_bounds [OF x] by simp
    ultimately have "round_magnitude ?x \<le> ?x + ?x / 2 ^ 53"
      by (simp add: field_simps)
    also have "\<dots> = ?x * (1 + 1 / 2 ^ 53)"
      by (simp add: field_simps)
    also have "\<dots> \<le> ((1 - 1 / 2 ^ 53) * real n) * (1 + 1 / 2 ^ 53)"
      using double_below_one [OF assms(1) r assms(3)] by (intro mult_right_mono) simp_all
    also have "\<dots> = real n * ((1 - 1 / 2 ^ 53) * (1 + 1 / 2 ^ 53))"
      by simp
    also have "\<dots> < real n * 1"
      using assms(4) by (intro mult_strict_left_mono) simp_all
    finally show ?thesis by simp
  next
    case False
    then have e: "exponent ?x + 1 \<le> - 1022" and m: "max (exponent ?x) (- 1022) = - 1022"
      by simp_all
    have "?x < 2 powi (exponent ?x + 1)"
      using exponent_bounds [OF x] by simp
    also have "\<dots> \<le> 2 powi (- 1022)"
      using e by (intro power_int_increasing) simp_all
    also have "\<dots> \<le> 1 / 2"
      by (simp add: power_int_minus_divide)
    finally have "?x < 1 / 2" .
    moreover have "(2::real) powi (- 1022 - 52) / 2 \<le> 1 / 2"
      by (simp add: power_int_minus_divide)
    ultimately have "round_magnitude ?x < 1"
      using round_magnitude_le_half_step [of ?x] m by simp
    with n1 show ?thesis by linarith
  qed
  have "real n \<le> 2 ^ 53"
    using assms(5) by (metis of_nat_le_iff of_nat_numeral of_nat_power)
  then have "real n < 2 ^ 1024"
    by (rule order_le_less_trans) simp
  with below have "\<not> 2 ^ 1024 \<le> round_magnitude ?x" by linarith
  then have fin: "round64 ?x = Num (round_magnitude ?x)"
    using x False assms(4) by (simp add: round64_def Let_def)
  have "0 \<le> round_magnitude ?x"
    using x by (rule round_magnitude_nonneg)
  then have "0 \<le> \<lfloor>round_magnitude ?x\<rfloor>" by simp
  moreover have "\<lfloor>round_magnitude ?x\<rfloor> < int n"
    using below by (simp add: floor_less_iff)
  ultimately show ?thesis
    using fin by (auto simp: mul64_def)
qed

section \<open>Properties of the scoring functions\<close>




text \<open>
  Over response times from \<open>0\<close> to the time limit the speed bonus is a finite number that
  does not grow with the response time.
\<close>

lemma speedBonus_antimono:
  assumes "is_double timeLimit" and "is_double maxSpeedBonus"
    and "0 < timeLimit" and "0 \<le> maxSpeedBonus"
    and "0 \<le> r1" and "r1 \<le> r2" and "r2 \<le> timeLimit"
  shows "\<exists>b1 b2.
      Math_floor (mul64 (Math_max (Num 0)
        (div64 (sub64 (Num timeLimit) (Num r1)) (Num timeLimit))) (Num maxSpeedBonus)) = Num b1
    \<and> Math_floor (mul64 (Math_max (Num 0)
        (div64 (sub64 (Num timeLimit) (Num r2)) (Num timeLimit))) (Num maxSpeedBonus)) = Num b2
    \<and> b2 \<le> b1"
proof -
  have t0: "timeLimit \<noteq> 0" using assms(3) by simp
  from round64_between [OF is_double_zero assms(1), of "timeLimit - r1"] assms(5,6,7)
  obtain d1 where d1: "round64 (timeLimit - r1) = Num d1" "0 \<le> d1" "d1 \<le> timeLimit"
    by auto
  from round64_between [OF is_double_zero assms(1), of "timeLimit - r2"] assms(5,6,7)
  obtain d2 where d2: "round64 (timeLimit - r2) = Num d2" "0 \<le> d2" "d2 \<le> timeLimit"
    by auto
  from round64_mono [of "timeLimit - r2" "timeLimit - r1"] assms(6) d1(1) d2(1)
  have d21: "d2 \<le> d1" by simp
  have q1: "0 \<le> d1 / timeLimit" "d1 / timeLimit \<le> 1"
    using d1(2,3) assms(3) by (simp_all add: field_simps)
  have q2: "0 \<le> d2 / timeLimit" "d2 / timeLimit \<le> 1"
    using d2(2,3) assms(3) by (simp_all add: field_simps)
  from round64_between [OF is_double_zero is_double_one q1]
  obtain s1 where s1: "round64 (d1 / timeLimit) = Num s1" "0 \<le> s1" "s1 \<le> 1"
    by auto
  from round64_between [OF is_double_zero is_double_one q2]
  obtain s2 where s2: "round64 (d2 / timeLimit) = Num s2" "0 \<le> s2" "s2 \<le> 1"
    by auto
  have "d2 / timeLimit \<le> d1 / timeLimit"
    using d21 assms(3) by (simp add: divide_right_mono)
  from round64_mono [OF this] s1(1) s2(1)
  have s21: "s2 \<le> s1" by simp
  have p1: "0 \<le> s1 * maxSpeedBonus" "s1 * maxSpeedBonus \<le> maxSpeedBonus"
    using s1(2,3) assms(4) by (simp_all add: mult_left_le_one_le)
  have p2: "0 \<le> s2 * maxSpeedBonus" "s2 * maxSpeedBonus \<le> maxSpeedBonus"
    using s2(2,3) assms(4) by (simp_all add: mult_left_le_one_le)
  from round64_between [OF is_double_zero assms(2) p1]
  obtain m1 where m1: "round64 (s1 * maxSpeedBonus) = Num m1"
    by auto
  from round64_between [OF is_double_zero assms(2) p2]
  obtain m2 where m2: "round64 (s2 * maxSpeedBonus) = Num m2"
    by auto
  have "s2 * maxSpeedBonus \<le> s1 * maxSpeedBonus"
    using s21 assms(4) by (rule mult_right_mono)
  from round64_mono [OF this] m1 m2
  have "m2 \<le> m1" by simp
  then have "real_of_int \<lfloor>m2\<rfloor> \<le> real_of_int \<lfloor>m1\<rfloor>"
    by (simp add: floor_mono)
  moreover have "Math_floor (mul64 (Math_max (Num 0)
        (div64 (sub64 (Num timeLimit) (Num r1)) (Num timeLimit))) (Num maxSpeedBonus))
      = Num (of_int \<lfloor>m1\<rfloor>)"
    using t0 d1(1) s1(1,2) m1 by (simp add: sub64_def js_sub_def div64_def mul64_def)
  moreover have "Math_floor (mul64 (Math_max (Num 0)
        (div64 (sub64 (Num timeLimit) (Num r2)) (Num timeLimit))) (Num maxSpeedBonus))
      = Num (of_int \<lfloor>m2\<rfloor>)"
    using t0 d2(1) s2(1,2) m2 by (simp add: sub64_def js_sub_def div64_def mul64_def)
  ultimately show ?thesis by blast
qed

text \<open>
  Claim C2: for fixed base points, speed bonus and time limit that are valid
  (\<open>maxSpeedBonus \<ge> 0\<close>, \<open>timeLimit > 0\<close>), the score of a correct answer does not increase
  with the response time over \<open>[0, timeLimit]\<close>, and an incorrect or absent answer earns
  \<open>0\<close> points.
\<close>

theorem score_monotone:
  assumes "is_double basePoints" and "is_double timeLimit" and "is_double maxSpeedBonus"
    and "0 < timeLimit" and "0 \<le> maxSpeedBonus"
    and "0 \<le> r1" and "r1 \<le> r2" and "r2 \<le> timeLimit"
  shows "js_le (score_spec True (Num r2) (Num timeLimit) (Num basePoints) (Num maxSpeedBonus))
               (score_spec True (Num r1) (Num timeLimit) (Num basePoints) (Num maxSpeedBonus))
         \<and> score_spec False responseTime limit points bonus = Num 0"
proof -
  from speedBonus_antimono [OF assms(2,3,4,5,6,7,8)] obtain b1 b2
    where b1: "Math_floor (mul64 (Math_max (Num 0)
          (div64 (sub64 (Num timeLimit) (Num r1)) (Num timeLimit))) (Num maxSpeedBonus)) = Num b1"
      and b2: "Math_floor (mul64 (Math_max (Num 0)
          (div64 (sub64 (Num timeLimit) (Num r2)) (Num timeLimit))) (Num maxSpeedBonus)) = Num b2"
      and le: "b2 \<le> b1"
    by blast
  from le have "basePoints + b2 \<le> basePoints + b1" by simp
  then have "js_le (round64 (basePoints + b2)) (round64 (basePoints + b1))"
    by (rule round64_mono)
  then show ?thesis
    by (simp add: score_spec_def calculateScore_def b1 b2 add64_def POINTS_INCORRECT_def)
qed

theorem score_monotone_witness:
  "score_spec True (Num 2) (Num 10) (Num 100) (Num 50) = Num 140
   \<and> score_spec True (Num 8) (Num 10) (Num 100) (Num 50) = Num 110
   \<and> js_le (score_spec True (Num 8) (Num 10) (Num 100) (Num 50))
            (score_spec True (Num 2) (Num 10) (Num 100) (Num 50))
   \<and> score_spec False (Num 2) (Num 10) (Num 100) (Num 50) = Num 0"
proof -
  have doubles: "is_double 100" "is_double 10" "is_double 50"
    by (simp_all add: is_double_def round64_eval)
  have a: "score_spec True (Num 2) (Num 10) (Num 100) (Num 50) = Num 140"
    by (simp add: score_spec_def calculateScore_def sub64_def div64_def mul64_def add64_def
        js_sub_def round64_eval)
  have b: "score_spec True (Num 8) (Num 10) (Num 100) (Num 50) = Num 110"
    by (simp add: score_spec_def calculateScore_def sub64_def div64_def mul64_def add64_def
        js_sub_def round64_eval)
  from score_monotone
    [where basePoints = 100 and timeLimit = 10 and maxSpeedBonus = 50 and ?r1.0 = 2
      and ?r2.0 = 8 and responseTime = "Num 2" and limit = "Num 10" and points = "Num 100"
      and bonus = "Num 50"]
    doubles a b
  show ?thesis by simp
qed

text \<open>NaN as response time propagates to the result.\<close>

lemma calculateScore_NaN:
  "calculateScore basePoints NaN timeLimit maxSpeedBonus = NaN"
proof -
  have "sub64 timeLimit NaN = NaN"
    by (cases timeLimit) (simp_all add: sub64_def js_sub_def)
  then show ?thesis
    by (cases basePoints) (simp_all add: calculateScore_def div64_def mul64_def add64_def)
qed

text \<open>The score at response time \<open>0\<close> is the base plus the whole bonus.\<close>

lemma calculateScore_at_zero:
  assumes "is_double timeLimit" and "is_double maxSpeedBonus"
    and "0 < timeLimit" and "0 \<le> maxSpeedBonus"
  shows "calculateScore (Num basePoints) (Num 0) (Num timeLimit) (Num maxSpeedBonus) =
           round64 (basePoints + of_int \<lfloor>maxSpeedBonus\<rfloor>)"
proof -
  have "round64 (timeLimit / timeLimit) = Num 1"
    using assms(3) is_double_one by (simp add: is_double_def)
  then show ?thesis
    using assms
    by (simp add: calculateScore_def sub64_def js_sub_def div64_def mul64_def add64_def
        is_double_def)
qed

text \<open>
  Claim C3, as stated: a call with a negative or NaN response time is rejected with an
  \<^verbatim>\<open>InvalidInput\<close> error. \<^const>\<open>calculateScore\<close> has no check and no error: at
  \<open>responseTime = -5\<close> (time limit \<open>10\<close>, base \<open>100\<close>, bonus \<open>50\<close>) it returns \<open>175\<close>, more
  than base plus full bonus, and at NaN it returns NaN.
\<close>

theorem calculateScore_no_rejection_counterexample:
  "calculateScore (Num 100) (Num (- 5)) (Num 10) (Num 50) = Num 175
   \<and> calculateScore (Num 100) NaN (Num 10) (Num 50) = NaN"
  by (simp add: calculateScore_def sub64_def div64_def mul64_def add64_def js_sub_def
      round64_eval)

text \<open>
  Claim C3, amended: \<^const>\<open>calculateScore\<close> rejects no call. For a negative response
  time, with a positive time limit and a positive speed bonus, the speed ratio
  \<open>(timeLimit - responseTime) / timeLimit\<close> is at least \<open>1\<close> and enters the bonus as it is:
  the result is \<open>basePoints + floor(ratio * maxSpeedBonus)\<close>, a number that is not below the
  score at response time \<open>0\<close>. For a NaN response time the result is NaN.
  \<^const>\<open>submitAnswerSchema\<close> is where a negative or NaN response time is refused: its
  parse of such a submission fails with a \<^verbatim>\<open>ZodError\<close>.
\<close>

theorem negative_responseTime_not_rejected:
  assumes "is_double basePoints" and "is_double responseTime"
    and "is_double timeLimit" and "is_double maxSpeedBonus"
    and "responseTime < 0" and "0 < timeLimit" and "0 < maxSpeedBonus"
  shows "js_le (Num 1) (div64 (sub64 (Num timeLimit) (Num responseTime)) (Num timeLimit))
         \<and> calculateScore (Num basePoints) (Num responseTime) (Num timeLimit) (Num maxSpeedBonus) =
             add64 (Num basePoints)
               (Math_floor
                 (mul64 (div64 (sub64 (Num timeLimit) (Num responseTime)) (Num timeLimit))
                   (Num maxSpeedBonus)))
         \<and> js_le (calculateScore (Num basePoints) (Num 0) (Num timeLimit) (Num maxSpeedBonus))
           (calculateScore (Num basePoints) (Num responseTime) (Num timeLimit) (Num maxSpeedBonus))
         \<and> calculateScore points NaN limit bonus = NaN
         \<and> submitAnswerSchema is_uuid (a\<lparr>a_responseTime := Num responseTime\<rparr>) = Inl ZodError
         \<and> submitAnswerSchema is_uuid (a\<lparr>a_responseTime := NaN\<rparr>) = Inl ZodError"
proof -
  let ?full = "round64 (basePoints + of_int \<lfloor>maxSpeedBonus\<rfloor>)"
  have t0: "timeLimit \<noteq> 0" using assms(6) by simp
  have zero: "calculateScore (Num basePoints) (Num 0) (Num timeLimit) (Num maxSpeedBonus) = ?full"
    using assms(3,4,6,7) by (simp add: calculateScore_at_zero)
  have full: "?full \<noteq> NaN" by (rule round64_not_NaN)
  let ?d = "sub64 (Num timeLimit) (Num responseTime)"
  have d: "js_le (Num timeLimit) ?d"
    using round64_ge_double [OF assms(3), of "timeLimit - responseTime"] assms(5)
    by (simp add: sub64_def js_sub_def)
  let ?q = "div64 ?d (Num timeLimit)"
  have q: "js_le (Num 1) ?q"
  proof (cases ?d)
    case (Num d')
    with d have "timeLimit \<le> d'" by simp
    then have "1 \<le> d' / timeLimit"
      using assms(6) by (simp add: field_simps)
    from round64_ge_double [OF is_double_one this] show ?thesis
      using Num t0 by (simp add: div64_def)
  next
    case PosInfinity
    then show ?thesis
      using assms(6) by (simp add: div64_def signed_infinity_def)
  next
    case NegInfinity
    with d show ?thesis by simp
  next
    case NaN
    with d show ?thesis by simp
  qed
  let ?r = "Math_max (Num 0) ?q"
  have unclamped: "?r = ?q"
    using q by (cases ?q) auto
  have r: "js_le (Num 1) ?r"
    using q by (simp only: unclamped)
  have formula: "calculateScore (Num basePoints) (Num responseTime) (Num timeLimit) (Num maxSpeedBonus) =
      add64 (Num basePoints) (Math_floor (mul64 ?q (Num maxSpeedBonus)))"
    using unclamped by (simp add: calculateScore_def)
  let ?p = "mul64 ?r (Num maxSpeedBonus)"
  have p: "js_le (Num maxSpeedBonus) ?p"
  proof (cases ?r)
    case (Num r')
    with r have "1 \<le> r'" by simp
    then have "maxSpeedBonus \<le> r' * maxSpeedBonus"
      using assms(7) by simp
    from round64_ge_double [OF assms(4) this] show ?thesis
      using Num by (simp add: mul64_def)
  next
    case PosInfinity
    then show ?thesis
      using assms(7) by (simp add: mul64_def signed_infinity_def)
  next
    case NegInfinity
    with r show ?thesis by simp
  next
    case NaN
    with r show ?thesis by simp
  qed
  have score: "js_le ?full (add64 (Num basePoints) (Math_floor ?p))"
  proof (cases ?p)
    case (Num p')
    with p have "maxSpeedBonus \<le> p'" by simp
    then have "\<lfloor>maxSpeedBonus\<rfloor> \<le> \<lfloor>p'\<rfloor>" by (rule floor_mono)
    then have "basePoints + of_int \<lfloor>maxSpeedBonus\<rfloor> \<le> basePoints + of_int \<lfloor>p'\<rfloor>"
      by simp
    from round64_mono [OF this] show ?thesis
      using Num by (simp add: add64_def)
  next
    case PosInfinity
    then show ?thesis
      using full by (cases ?full) (simp_all add: add64_def)
  next
    case NegInfinity
    with p show ?thesis by simp
  next
    case NaN
    with p show ?thesis by simp
  qed
  have above: "js_le (calculateScore (Num basePoints) (Num 0) (Num timeLimit) (Num maxSpeedBonus))
      (calculateScore (Num basePoints) (Num responseTime) (Num timeLimit) (Num maxSpeedBonus))"
    using score by (simp add: zero) (simp add: calculateScore_def)
  have neg: "submitAnswerSchema is_uuid (a\<lparr>a_responseTime := Num responseTime\<rparr>) = Inl ZodError"
    using assms(5) by (simp add: submitAnswerSchema_def z_min_def)
  have nan: "submitAnswerSchema is_uuid (a\<lparr>a_responseTime := NaN\<rparr>) = Inl ZodError"
    by (simp add: submitAnswerSchema_def z_number_def)
  show ?thesis
    using q formula above neg nan calculateScore_NaN by blast
qed

theorem negative_responseTime_not_rejected_witness:
  "js_le (calculateScore (Num 100) (Num 0) (Num 10) (Num 50))
     (calculateScore (Num 100) (Num (- 5)) (Num 10) (Num 50))
   \<and> calculateScore (Num 100) (Num 0) (Num 10) (Num 50) = Num 150
   \<and> calculateScore (Num 100) (Num (- 5)) (Num 10) (Num 50) = Num 175
   \<and> calculateScore (Num 100) (Num (- 46)) (Num 5) (Num 50) = Num 609
   \<and> submitAnswerSchema uuid_shape answer0 = Inr answer0
   \<and> submitAnswerSchema uuid_shape (answer0\<lparr>a_responseTime := Num (- 5)\<rparr>) = Inl ZodError
   \<and> submitAnswerSchema uuid_shape (answer0\<lparr>a_responseTime := NaN\<rparr>) = Inl ZodError"
proof -
  have doubles: "is_double 100" "is_double (- 5)" "is_double 10" "is_double 50"
    by (simp_all add: is_double_def round64_eval)
  have a: "calculateScore (Num 100) (Num 0) (Num 10) (Num 50) = Num 150"
    by (simp add: calculateScore_def sub64_def div64_def mul64_def add64_def js_sub_def
        round64_eval)
  have b: "calculateScore (Num 100) (Num (- 5)) (Num 10) (Num 50) = Num 175"
    by (simp add: calculateScore_def sub64_def div64_def mul64_def add64_def js_sub_def
        round64_eval)
  have c: "calculateScore (Num 100) (Num (- 46)) (Num 5) (Num 50) = Num 609"
    by (simp add: calculateScore_def sub64_def div64_def mul64_def add64_def js_sub_def
        round64_eval)
  have ok: "submitAnswerSchema uuid_shape answer0 = Inr answer0"
    by (simp add: submitAnswerSchema_def answer0_def uuid_shape_def userIdSchema_def
        z_number_def z_int_def z_min_def z_max_def)
  have "(- 5 :: real) < 0" and "(0 :: real) < 10" and "(0 :: real) < 50"
    by simp_all
  from negative_responseTime_not_rejected
    [where basePoints = 100 and responseTime = "- 5" and timeLimit = 10
      and maxSpeedBonus = 50 and points = "Num 100" and limit = "Num 10" and bonus = "Num 50"
      and is_uuid = uuid_shape and a = answer0, OF doubles this]
  have "js_le (calculateScore (Num 100) (Num 0) (Num 10) (Num 50))
      (calculateScore (Num 100) (Num (- 5)) (Num 10) (Num 50))"
    and "submitAnswerSchema uuid_shape (answer0\<lparr>a_responseTime := Num (- 5)\<rparr>) = Inl ZodError"
    and "submitAnswerSchema uuid_shape (answer0\<lparr>a_responseTime := NaN\<rparr>) = Inl ZodError"
    by blast+
  with a b c ok show ?thesis by simp
qed

text \<open>
  Claim C4, as stated, for every streak including \<open>0\<close>: the multiplier is
  \<open>min(1 + (streak - 1) * (streakFactor - 1), maxStreakMultiplier)\<close>. At streak \<open>0\<close> with
  the factor \<open>1.1\<close> and the cap \<open>2\<close> of the constants, the formula gives
  \<open>0.8999999999999999\<close> and \<^const>\<open>calculateStreakMultiplier\<close> returns \<open>1\<close>.
\<close>

theorem streak_multiplier_counterexample:
  "STREAK_MULTIPLIER = Num (2476979795053773 / 2251799813685248)
   \<and> MAX_STREAK_MULTIPLIER = Num 2
   \<and> (1::real) \<le> 2476979795053773 / 2251799813685248 \<and> (1::real) \<le> 2
   \<and> calculateStreakMultiplier (Num 0) STREAK_MULTIPLIER MAX_STREAK_MULTIPLIER = Num 1
   \<and> spec_streakMultiplier (Num 0) STREAK_MULTIPLIER MAX_STREAK_MULTIPLIER
       = Num (2026619832316723 / 2251799813685248)
   \<and> calculateStreakMultiplier (Num 0) STREAK_MULTIPLIER MAX_STREAK_MULTIPLIER
       \<noteq> spec_streakMultiplier (Num 0) STREAK_MULTIPLIER MAX_STREAK_MULTIPLIER"
  by (simp add: calculateStreakMultiplier_def spec_streakMultiplier_def STREAK_MULTIPLIER_def
      MAX_STREAK_MULTIPLIER_def sub64_def mul64_def add64_def js_sub_def round64_eval)

text \<open>
  Claim C4, amended: with \<open>streakFactor \<ge> 1\<close> and \<open>maxStreakMultiplier \<ge> 1\<close>, the
  multiplier is \<open>min(1 + (streak - 1) * (streakFactor - 1), maxStreakMultiplier)\<close>, in the
  arithmetic of JavaScript numbers, for every streak of at least \<open>1\<close>, and it is \<open>1\<close> for
  every streak of at most \<open>1\<close>, the streak \<open>0\<close> of a first correct answer included.
\<close>

theorem streak_multiplier_from_one:
  assumes "is_double streak" and "is_double streakFactor" and "is_double maxStreakMultiplier"
    and "1 \<le> streakFactor" and "1 \<le> maxStreakMultiplier"
  shows "(1 \<le> streak \<longrightarrow>
            calculateStreakMultiplier (Num streak) (Num streakFactor) (Num maxStreakMultiplier) =
              spec_streakMultiplier (Num streak) (Num streakFactor) (Num maxStreakMultiplier))
         \<and> (streak \<le> 1 \<longrightarrow>
            calculateStreakMultiplier (Num streak) (Num streakFactor) (Num maxStreakMultiplier) =
              Num 1)"
proof -
  have at_one: "spec_streakMultiplier (Num 1) (Num streakFactor) (Num maxStreakMultiplier) = Num 1"
  proof -
    from round64_between [OF is_double_zero assms(2), of "streakFactor - 1"] assms(4)
    obtain g where "round64 (streakFactor - 1) = Num g"
      by auto
    then show ?thesis
      using assms(5) is_double_one
      by (simp add: spec_streakMultiplier_def sub64_def js_sub_def mul64_def add64_def
          round64_zero is_double_def)
  qed
  have above: "calculateStreakMultiplier (Num streak) (Num streakFactor) (Num maxStreakMultiplier) =
      spec_streakMultiplier (Num streak) (Num streakFactor) (Num maxStreakMultiplier)"
    if "1 \<le> streak"
  proof (cases "streak = 1")
    case True
    then show ?thesis
      using at_one by (simp add: calculateStreakMultiplier_def)
  next
    case False
    with that have "1 < streak" by simp
    then show ?thesis
      by (simp add: calculateStreakMultiplier_def spec_streakMultiplier_def)
  qed
  have below: "calculateStreakMultiplier (Num streak) (Num streakFactor) (Num maxStreakMultiplier) =
      Num 1" if "streak \<le> 1"
    using that by (simp add: calculateStreakMultiplier_def)
  from above below show ?thesis by simp
qed

theorem streak_multiplier_from_one_witness:
  "calculateStreakMultiplier (Num 3) STREAK_MULTIPLIER MAX_STREAK_MULTIPLIER
     = Num (1351079888211149 / 1125899906842624)
   \<and> spec_streakMultiplier (Num 3) STREAK_MULTIPLIER MAX_STREAK_MULTIPLIER
     = Num (1351079888211149 / 1125899906842624)
   \<and> calculateStreakMultiplier (Num 0) STREAK_MULTIPLIER MAX_STREAK_MULTIPLIER = Num 1"
proof -
  let ?f = "2476979795053773 / 2251799813685248 :: real"
  have f: "STREAK_MULTIPLIER = Num ?f"
    by (simp add: STREAK_MULTIPLIER_def round64_eval)
  have doubles: "is_double 3" "is_double 0" "is_double ?f" "is_double 2"
    by (simp_all add: is_double_def round64_eval)
  have f1: "1 \<le> ?f" by simp
  have a: "calculateStreakMultiplier (Num 3) (Num ?f) (Num 2)
      = Num (1351079888211149 / 1125899906842624)"
    by (simp add: calculateStreakMultiplier_def sub64_def mul64_def add64_def js_sub_def
        round64_eval)
  have b: "spec_streakMultiplier (Num 3) (Num ?f) (Num 2)
      = Num (1351079888211149 / 1125899906842624)"
    using streak_multiplier_from_one
      [where streak = 3 and streakFactor = ?f and maxStreakMultiplier = 2]
      doubles f1 a
    by simp
  have c: "calculateStreakMultiplier (Num 0) (Num ?f) (Num 2) = Num 1"
    by (rule mp [OF conjunct2 [OF streak_multiplier_from_one
        [where streak = 0 and streakFactor = ?f and maxStreakMultiplier = 2]]])
      (simp_all add: doubles)
  from a b c show ?thesis
    by (simp add: f MAX_STREAK_MULTIPLIER_def)
qed

section \<open>Properties of the lobby functions\<close>

text \<open>
  Claim C6: \<^const>\<open>canStartGame\<close> holds if and only if the lobby has at least
  \<^const>\<open>MIN_PLAYERS_TO_START\<close> (2) players and every player of the roster is ready.
\<close>

theorem canStartGame_iff:
  "canStartGame l \<longleftrightarrow>
     MIN_PLAYERS_TO_START \<le> length (players l) \<and> (\<forall>p \<in> set (players l). isReady p)"
proof -
  have "length (filter (\<lambda>p. isReady p) (players l)) = length (players l)
        \<longleftrightarrow> (\<forall>p \<in> set (players l). isReady p)"
    by (metis filter_id_conv length_filter_less less_irrefl)
  then show ?thesis
    by (auto simp: canStartGame_def MIN_PLAYERS_TO_START_def Let_def)
qed

theorem canStartGame_iff_witness:
  "canStartGame lobby0
   \<and> \<not> canStartGame (lobby0\<lparr>players := [\<lparr>player_id = ''h'', score = 0, isReady = True\<rparr>]\<rparr>)
   \<and> \<not> canStartGame (lobby0\<lparr>players := [\<lparr>player_id = ''h'', score = 0, isReady = True\<rparr>,
                \<lparr>player_id = ''p1'', score = 0, isReady = False\<rparr>]\<rparr>)"
  using canStartGame_iff [of lobby0]
    canStartGame_iff [of "lobby0\<lparr>players := [\<lparr>player_id = ''h'', score = 0, isReady = True\<rparr>]\<rparr>"]
    canStartGame_iff [of "lobby0\<lparr>players := [\<lparr>player_id = ''h'', score = 0, isReady = True\<rparr>,
                \<lparr>player_id = ''p1'', score = 0, isReady = False\<rparr>]\<rparr>"]
  by (simp add: lobby0_def MIN_PLAYERS_TO_START_def)

text \<open>
  Claim C7: a join to a lobby whose roster is at capacity (\<open>players.length = maxPlayers\<close>)
  is rejected with \<^verbatim>\<open>LOBBY_FULL\<close> and leaves the registry, and so the roster, as it was;
  and a lobby has available slots if and only if \<open>players.length < maxPlayers\<close>.
\<close>

theorem full_lobby_rejects_join:
  "(registry lid = Some l \<and> maxPlayers l = Num (real (length (players l))) \<longrightarrow>
      joinLobby registry lid p = (Inl LOBBY_FULL, registry))
   \<and> (maxPlayers l = Num m \<longrightarrow> hasAvailableSlots l = (real (length (players l)) < m))"
  by (simp add: joinLobby_def hasAvailableSlots_def)

theorem full_lobby_rejects_join_witness:
  "joinLobby [''ABC123'' \<mapsto> lobby4] ''ABC123'' \<lparr>player_id = ''p4'', score = 0, isReady = False\<rparr>
     = (Inl LOBBY_FULL, [''ABC123'' \<mapsto> lobby4])
   \<and> length (players lobby4) = 4
   \<and> \<not> hasAvailableSlots lobby4
   \<and> hasAvailableSlots lobby0"
  using full_lobby_rejects_join [of "[''ABC123'' \<mapsto> lobby4]" "''ABC123''" lobby4
      "\<lparr>player_id = ''p4'', score = 0, isReady = False\<rparr>" 4]
    full_lobby_rejects_join [of "[''ABC123'' \<mapsto> lobby0]" "''ABC123''" lobby0
      "\<lparr>player_id = ''p4'', score = 0, isReady = False\<rparr>" 4]
  by (simp add: lobby4_def lobby0_def)

section \<open>Ranking\<close>

text \<open>
  On integer scores the sort of \<^const>\<open>getPlayerRank\<close> is the stable insertion sort of the
  library, keyed by the negated score.
\<close>

lemma sortedPlayers_sort_key: "sortedPlayers ps = sort_key (\<lambda>p. - score p) ps"
proof -
  have ins: "insert_by (\<lambda>a b. js_sub (Num (of_int (score b))) (Num (of_int (score a)))) x ys
      = insort_key (\<lambda>p. - score p) x ys" for x :: "'a player_scheme" and ys
    by (induction ys) (auto simp: js_sub_def)
  show ?thesis
    unfolding sortedPlayers_def Array_sort_def sort_key_def
    by (induction ps) (simp_all add: ins)
qed

text \<open>
  Where the keys are distinct, \<^const>\<open>findIndex\<close> finds an element at its own position.
\<close>

lemma findIndex_distinct:
  "distinct (map f xs) \<Longrightarrow> i < length xs \<Longrightarrow> findIndex (\<lambda>p. f p = f (xs ! i)) xs = int i"
proof (induction xs arbitrary: i)
  case Nil
  then show ?case by simp
next
  case (Cons x xs)
  show ?case
  proof (cases i)
    case 0
    then show ?thesis by simp
  next
    case (Suc j)
    with Cons.prems have j: "j < length xs" and d: "distinct (map f xs)"
      and nx: "f x \<notin> f ` set xs"
      by simp_all
    from j nx have "f x \<noteq> f (xs ! j)"
      by (metis imageI nth_mem)
    moreover have "findIndex (\<lambda>p. f p = f (xs ! j)) xs = int j"
      using Cons.IH [OF d j] .
    ultimately show ?thesis
      using Suc by (simp add: Let_def)
  qed
qed

text \<open>
  Claim C5, as stated: rankings follow descending score, ties are broken first by the
  cumulative count of correct answers and then by join order. \<^const>\<open>getPlayerRank\<close>
  reads the score only: of two players with equal scores the one who is first in the
  input list is ranked first, whether that player has fewer correct answers (\<open>1\<close> against
  \<open>3\<close>) or more (\<open>3\<close> against \<open>1\<close>), so the count of correct answers breaks no tie.
\<close>

theorem ranking_tie_break_counterexample:
  "score playerA1 = score playerB3 \<and> correctAnswers playerA1 < correctAnswers playerB3
   \<and> sortedPlayers [playerA1, playerB3] = [playerA1, playerB3]
   \<and> getPlayerRank [playerA1, playerB3] ''A'' = 1
   \<and> getPlayerRank [playerA1, playerB3] ''B'' = 2
   \<and> score playerA3 = score playerB1 \<and> correctAnswers playerB1 < correctAnswers playerA3
   \<and> sortedPlayers [playerA3, playerB1] = [playerA3, playerB1]
   \<and> getPlayerRank [playerA3, playerB1] ''A'' = 1
   \<and> getPlayerRank [playerA3, playerB1] ''B'' = 2"
  by (simp add: getPlayerRank_def sortedPlayers_def Array_sort_def js_sub_def
      playerA1_def playerB3_def playerA3_def playerB1_def)

text \<open>
  Claim C5, amended: the ranking of \<^const>\<open>getPlayerRank\<close> is a rearrangement of the
  players in descending order of score in which players of equal score keep the order of
  the input list (the join order), and nothing but score and input order enters; with
  distinct player ids, the player at position \<open>i\<close> of that order has rank \<open>i + 1\<close>. The
  ranking is a function of the input list, so the same input gives the same output.
\<close>

theorem ranking_by_score_stable:
  "mset (sortedPlayers ps) = mset ps
   \<and> sorted_wrt (\<lambda>a b. score a \<ge> score b) (sortedPlayers ps)
   \<and> (\<forall>k. filter (\<lambda>p. score p = k) (sortedPlayers ps) = filter (\<lambda>p. score p = k) ps)
   \<and> (distinct (map player_id ps) \<longrightarrow>
        (\<forall>i < length ps. getPlayerRank ps (player_id (sortedPlayers ps ! i)) = int i + 1))"
proof -
  let ?key = "\<lambda>p::'a player_scheme. - score p"
  have perm: "mset (sortedPlayers ps) = mset ps"
    by (simp add: sortedPlayers_sort_key)
  have "sorted (map ?key (sortedPlayers ps))"
    by (simp add: sortedPlayers_sort_key)
  then have desc: "sorted_wrt (\<lambda>a b. score a \<ge> score b) (sortedPlayers ps)"
    by (simp add: sorted_map)
  have stable: "filter (\<lambda>p. score p = k) (sortedPlayers ps) = filter (\<lambda>p. score p = k) ps" for k
    using sort_key_stable [of ?key "- k" ps] by (simp add: sortedPlayers_sort_key)
  have rank: "getPlayerRank ps (player_id (sortedPlayers ps ! i)) = int i + 1"
    if d: "distinct (map player_id ps)" and i: "i < length ps" for i
  proof -
    have "mset (map player_id (sortedPlayers ps)) = mset (map player_id ps)"
      using perm by (metis mset_map)
    then have "distinct (map player_id (sortedPlayers ps))"
      using d by (metis mset_eq_imp_distinct_iff)
    moreover have "i < length (sortedPlayers ps)"
      using i perm by (metis size_mset)
    ultimately show ?thesis
      by (simp add: getPlayerRank_def findIndex_distinct)
  qed
  show ?thesis
    using perm desc stable rank by blast
qed

theorem ranking_by_score_stable_witness:
  "sortedPlayers [playerA1, playerB3, playerC] = [playerC, playerA1, playerB3]
   \<and> getPlayerRank [playerA1, playerB3, playerC] ''C'' = 1
   \<and> getPlayerRank [playerA1, playerB3, playerC] ''A'' = 2
   \<and> getPlayerRank [playerA1, playerB3, playerC] ''B'' = 3"
proof -
  have s: "sortedPlayers [playerA1, playerB3, playerC] = [playerC, playerA1, playerB3]"
    by (simp add: sortedPlayers_def Array_sort_def js_sub_def playerA1_def playerB3_def playerC_def)
  have d: "distinct (map player_id [playerA1, playerB3, playerC])"
    by (simp add: playerA1_def playerB3_def playerC_def)
  have r: "\<forall>i < length [playerA1, playerB3, playerC].
      getPlayerRank [playerA1, playerB3, playerC]
        (player_id (sortedPlayers [playerA1, playerB3, playerC] ! i)) = int i + 1"
    using ranking_by_score_stable [of "[playerA1, playerB3, playerC]"] d by blast
  have "getPlayerRank [playerA1, playerB3, playerC] (player_id ([playerC, playerA1, playerB3] ! 0)) = 1"
    using r s by force
  moreover have "getPlayerRank [playerA1, playerB3, playerC] (player_id ([playerC, playerA1, playerB3] ! 1)) = 2"
    using r s by force
  moreover have "getPlayerRank [playerA1, playerB3, playerC] (player_id ([playerC, playerA1, playerB3] ! 2)) = 3"
    using r s by force
  ultimately show ?thesis
    using s by (simp add: playerA1_def playerB3_def playerC_def)
qed

section \<open>Question validation\<close>

text \<open>
  Claim C8: a question accepted by \<^const>\<open>questionSchema\<close> has between 2 and 6 options
  and a correct index that is a natural number below the number of options, so that
  \<^verbatim>\<open>options[correctIndex]\<close> is an element of the list.
\<close>

theorem validated_question_index_in_bounds:
  assumes "questionSchema is_url q = Inr q'"
  shows "2 \<le> length (q_options q') \<and> length (q_options q') \<le> 6
         \<and> (\<exists>n. q_correctIndex q' = Num (real n) \<and> n < length (q_options q')
                \<and> array_get (q_options q') (q_correctIndex q') = Some (q_options q' ! n))"
proof -
  from assms have eq: "q' = q"
    and obj: "questionSchema_object is_url q" and ref: "questionSchema_refine q"
    by (auto simp: questionSchema_def split: if_splits)
  from obj have len: "2 \<le> length (q_options q)" "length (q_options q) \<le> 6"
    and int: "z_int (q_correctIndex q)" and nonneg: "z_min 0 (q_correctIndex q)"
    by (simp_all add: questionSchema_object_def)
  from int obtain a where a: "q_correctIndex q = Num a" and whole: "of_int \<lfloor>a\<rfloor> = a"
    by (auto simp: z_int_def split: number.splits)
  from nonneg a have a0: "0 \<le> a"
    by (simp add: z_min_def)
  from ref a have alt: "a < real (length (q_options q))"
    by (simp add: questionSchema_refine_def)
  define n where "n = nat \<lfloor>a\<rfloor>"
  have an: "a = real n"
  proof -
    have "0 \<le> \<lfloor>a\<rfloor>"
      using a0 by simp
    then have "int n = \<lfloor>a\<rfloor>"
      by (simp add: n_def)
    then have "real_of_int (int n) = real_of_int \<lfloor>a\<rfloor>"
      by (rule arg_cong)
    then show ?thesis
      using whole by simp
  qed
  then have "n < length (q_options q)"
    using alt by simp
  moreover have "array_get (q_options q) (Num (real n)) = Some (q_options q ! n)"
    using \<open>n < length (q_options q)\<close> by (simp add: array_get_def)
  ultimately show ?thesis
    using len a an eq by simp
qed

theorem validated_question_index_in_bounds_witness:
  "questionSchema (\<lambda>u. True) question0 = Inr question0
   \<and> array_get (q_options question0) (q_correctIndex question0) = Some ''Paris''"
proof -
  have ok: "questionSchema (\<lambda>u. True) question0 = Inr question0"
    by (simp add: questionSchema_def questionSchema_object_def questionSchema_refine_def
        question0_def z_number_def z_int_def z_min_def z_max_def z_optional_def
        QUESTION_CATEGORIES_def DIFFICULTY_LEVELS_def MIN_TIME_PER_QUESTION_def
        MAX_TIME_PER_QUESTION_def)
  from validated_question_index_in_bounds [OF ok]
  obtain n where n: "q_correctIndex question0 = Num (real n)"
    and g: "array_get (q_options question0) (q_correctIndex question0) = Some (q_options question0 ! n)"
    by blast
  from n have "n = 2"
    by (simp add: question0_def)
  with g have "array_get (q_options question0) (q_correctIndex question0) = Some ''Paris''"
    by (simp add: question0_def)
  with ok show ?thesis by simp
qed

section \<open>Lobby identifiers are valid\<close>

text \<open>
  The two regular expressions, as conditions on the length and the characters.
\<close>

lemma match_exactly_iff: "match_exactly n cls s \<longleftrightarrow> length s = n \<and> list_all cls s"
  by (induction n cls s rule: match_exactly.induct) auto

lemma match_plus_iff: "match_plus cls s \<longleftrightarrow> s \<noteq> [] \<and> list_all cls s"
  by (induction cls s rule: match_plus.induct) auto

lemma lobbyId_chars_upper_alnum: "list_all upper_alnum lobbyId_chars"
  by (simp add: upper_alnum_def lobbyId_chars_def)

text \<open>
  A random number of \<open>[0, 1)\<close>, scaled by a positive length and floored, is an index.
\<close>

lemma random_index_in_range:
  assumes "0 \<le> r" and "r < 1" and "0 < n"
  shows "0 \<le> \<lfloor>r * real n\<rfloor> \<and> \<lfloor>r * real n\<rfloor> < int n"
proof -
  have "0 \<le> r * real n"
    using assms by simp
  then have lo: "0 \<le> \<lfloor>r * real n\<rfloor>"
    by simp
  have "r * real n < 1 * real n"
    using assms by (intro mult_strict_right_mono) simp_all
  then have "r * real n < real_of_int (int n)"
    by simp
  then have "\<lfloor>r * real n\<rfloor> < int n"
    by (simp only: floor_less_iff)
  with lo show ?thesis by simp
qed

text \<open>
  Each iteration of the generator appends one character of the alphabet.
\<close>

lemma charAt_random:
  assumes "0 \<le> r" and "r < 1"
  shows "\<exists>c \<in> set lobbyId_chars.
           charAt lobbyId_chars (Math_floor (js_mul (Num r) (Num (real (length lobbyId_chars))))) = [c]"
proof -
  let ?n = "length lobbyId_chars"
  let ?i = "\<lfloor>r * real ?n\<rfloor>"
  have "0 < ?n"
    by (simp add: lobbyId_chars_def)
  from random_index_in_range [OF assms this]
  have range: "0 \<le> ?i" "?i < int ?n"
    by simp_all
  then have "nat ?i < ?n"
    by (simp only: nat_less_iff)
  then have mem: "lobbyId_chars ! nat ?i \<in> set lobbyId_chars"
    by (rule nth_mem)
  have "charAt lobbyId_chars (Math_floor (js_mul (Num r) (Num (real ?n)))) = [lobbyId_chars ! nat ?i]"
    using range by (simp add: charAt_def Let_def)
  with mem show ?thesis by blast
qed

text \<open>
  The loop invariant: after \<open>i\<close> iterations the result has \<open>i\<close> characters of the
  alphabet; the loop ends with six.
\<close>

lemma generateLobbyId_loop_invariant:
  "\<forall>j<6. 0 \<le> random j \<and> random j < 1 \<Longrightarrow>
   i \<le> 6 \<Longrightarrow> length result = i \<Longrightarrow> set result \<subseteq> set lobbyId_chars \<Longrightarrow>
   length (generateLobbyId_loop random i result) = 6
   \<and> set (generateLobbyId_loop random i result) \<subseteq> set lobbyId_chars"
proof (induction random i result rule: generateLobbyId_loop.induct)
  case (1 random i result)
  show ?case
  proof (cases "i < 6")
    case True
    with "1.prems"(1) have "0 \<le> random i" and "random i < 1"
      by simp_all
    from charAt_random [OF this] obtain c where c: "c \<in> set lobbyId_chars"
      and step: "charAt lobbyId_chars
          (Math_floor (js_mul (Num (random i)) (Num (real (length lobbyId_chars))))) = [c]"
      by blast
    have unfold: "generateLobbyId_loop random i result =
        generateLobbyId_loop random (Suc i) (result @ [c])"
      using True step by (subst generateLobbyId_loop.simps) simp
    have "length (generateLobbyId_loop random (Suc i) (result @ [c])) = 6
        \<and> set (generateLobbyId_loop random (Suc i) (result @ [c])) \<subseteq> set lobbyId_chars"
      using "1.IH" [OF True "1.prems"(1)] True "1.prems"(3,4) c step by simp
    with unfold show ?thesis by simp
  next
    case False
    with "1.prems" show ?thesis
      by (simp add: generateLobbyId_loop.simps)
  qed
qed

text \<open>
  Claim C9: whatever values in \<open>[0, 1)\<close> the random source returns, the generated lobby
  id has 6 characters, all among the uppercase letters and the digits, and it is accepted
  by \<^const>\<open>isValidLobbyId\<close> and by \<^const>\<open>lobbyIdSchema\<close>.
\<close>

theorem generated_lobbyId_valid:
  assumes "\<forall>i<6. 0 \<le> random i \<and> random i < 1"
  shows "length (generateLobbyId random) = 6
         \<and> set (generateLobbyId random) \<subseteq> set ''ABCDEFGHIJKLMNOPQRSTUVWXYZ0123456789''
         \<and> isValidLobbyId (generateLobbyId random)
         \<and> lobbyIdSchema (generateLobbyId random) = Inr (generateLobbyId random)"
proof -
  have inv: "length (generateLobbyId random) = 6"
    "set (generateLobbyId random) \<subseteq> set lobbyId_chars"
    using generateLobbyId_loop_invariant [OF assms, of 0 "[]"]
    by (simp_all add: generateLobbyId_def)
  have "list_all upper_alnum (generateLobbyId random)"
    using inv(2) lobbyId_chars_upper_alnum by (auto simp: list_all_iff)
  moreover have "generateLobbyId random \<noteq> []"
    using inv(1) by auto
  ultimately have "isValidLobbyId (generateLobbyId random)"
    and "lobbyIdSchema (generateLobbyId random) = Inr (generateLobbyId random)"
    using inv(1) by (simp_all add: isValidLobbyId_def lobbyIdSchema_def match_exactly_iff match_plus_iff)
  with inv show ?thesis
    by (simp add: lobbyId_chars_def)
qed

theorem generated_lobbyId_valid_witness:
  "generateLobbyId (\<lambda>i. real i / 7) = ''AFKPUZ'' \<and> isValidLobbyId ''AFKPUZ''
   \<and> lobbyIdSchema ''AFKPUZ'' = Inr ''AFKPUZ''"
proof -
  have r: "\<forall>i<6. 0 \<le> real i / 7 \<and> real i / 7 < 1"
    by simp
  have g: "generateLobbyId (\<lambda>i. real i / 7) = ''AFKPUZ''"
    by (simp add: generateLobbyId_def generateLobbyId_loop.simps lobbyId_chars_def charAt_def)
  from generated_lobbyId_valid [OF r] g show ?thesis
    by simp
qed

section \<open>Fifty-fifty\<close>

text \<open>
  On a non-empty array \<^const>\<open>getRandomElement\<close> returns one of its elements.
\<close>

lemma getRandomElement_member:
  assumes "0 \<le> r" and "r < 1" and "array \<noteq> []"
  shows "\<exists>x \<in> set array. getRandomElement r array = Some x"
proof -
  let ?n = "length array"
  let ?i = "\<lfloor>r * real ?n\<rfloor>"
  have "0 < ?n"
    using assms(3) by simp
  from random_index_in_range [OF assms(1,2) this]
  have lo: "0 \<le> ?i" and hi: "?i < int ?n"
    by simp_all
  from lo hi have nat_hi: "nat ?i < ?n"
    by (simp only: nat_less_iff)
  have "real_of_int ?i < real_of_int (int ?n)"
    using hi by (simp only: of_int_less_iff)
  then have hi': "real_of_int ?i < real ?n"
    by simp
  have lo': "0 \<le> real_of_int ?i"
    using lo by (simp only: of_int_0_le_iff)
  have "getRandomElement r array = Some (array ! nat ?i)"
    using lo' hi' by (simp add: getRandomElement_def array_get_def)
  moreover have "array ! nat ?i \<in> set array"
    using nat_hi by (rule nth_mem)
  ultimately show ?thesis by blast
qed

text \<open>
  With two options or more, some index differs from the correct one.
\<close>

lemma wrongIndices_nonempty:
  assumes "2 \<le> n"
  shows "filter (\<lambda>index. index \<noteq> v) (map (\<lambda>index. Num (real index)) [0..<n]) \<noteq> []"
proof -
  have "Num (real 0) \<noteq> Num (real 1)"
    by simp
  then have "Num (real 0) \<noteq> v \<or> Num (real 1) \<noteq> v"
    by metis
  moreover have "Num (real 0) \<in> set (map (\<lambda>index. Num (real index)) [0..<n])"
    and "Num (real 1) \<in> set (map (\<lambda>index. Num (real index)) [0..<n])"
    using assms by (auto simp del: of_nat_0 of_nat_1 of_nat_Suc)
  ultimately show ?thesis
    by (metis (mono_tags, lifting) filter_empty_conv)
qed

text \<open>
  The numeric sort of a pair of finite numbers.
\<close>

lemma sort_pair:
  "Array_sort_undefined (\<lambda>a b. js_sub a b) [Some (Num x), Some (Num y)] =
     (if y < x then [Some (Num y), Some (Num x)] else [Some (Num x), Some (Num y)])"
  by (simp add: Array_sort_undefined_def Array_sort_def List.map_filter_simps js_sub_def)

text \<open>
  Claim C10: for a question with at least 2 options and \<open>0 \<le> correctIndex < options.length\<close>,
  \<^const>\<open>applyFiftyFifty\<close> returns exactly two different indices in ascending order:
  the correct index, and an index \<open>k\<close> of a wrong answer within the bounds of the options.
\<close>

theorem fiftyFifty_correct_and_one_wrong:
  assumes "2 \<le> length (q_options q)"
    and "q_correctIndex q = Num c" and "0 \<le> c" and "c < real (length (q_options q))"
    and "0 \<le> random" and "random < 1"
  shows "\<exists>k < length (q_options q). real k \<noteq> c \<and>
           applyFiftyFifty random q =
             (if c < real k then [Some (Num c), Some (Num (real k))]
              else [Some (Num (real k)), Some (Num c)])"
proof -
  let ?n = "length (q_options q)"
  let ?wrong = "filter (\<lambda>index. index \<noteq> Num c) (map (\<lambda>index. Num (real index)) [0..<?n])"
  have "?wrong \<noteq> []"
    using assms(1) by (rule wrongIndices_nonempty)
  from getRandomElement_member [OF assms(5,6) this]
  obtain w where w: "w \<in> set ?wrong" and pick: "getRandomElement random ?wrong = Some w"
    by blast
  from w have wc: "w \<noteq> Num c" and "w \<in> set (map (\<lambda>index. Num (real index)) [0..<?n])"
    by simp_all
  then obtain k where k: "k < ?n" and wk: "w = Num (real k)"
    by auto
  from wc wk have neq: "real k \<noteq> c"
    by simp
  have "applyFiftyFifty random q =
      Array_sort_undefined (\<lambda>a b. js_sub a b) [Some (Num c), Some (Num (real k))]"
    using pick wk assms(2) by (simp add: applyFiftyFifty_def Let_def)
  also have "\<dots> = (if c < real k then [Some (Num c), Some (Num (real k))]
              else [Some (Num (real k)), Some (Num c)])"
    using neq by (simp add: sort_pair)
  finally show ?thesis
    using k neq by blast
qed

theorem fiftyFifty_correct_and_one_wrong_witness:
  "q_correctIndex question0 = Num 2 \<and> length (q_options question0) = 4
   \<and> applyFiftyFifty (1 / 2) question0 = [Some (Num 1), Some (Num 2)]
   \<and> applyFiftyFifty 0 question0 = [Some (Num 0), Some (Num 2)]
   \<and> applyFiftyFifty (9 / 10) question0 = [Some (Num 2), Some (Num 3)]"
  using fiftyFifty_correct_and_one_wrong [of question0 2 "1 / 2"]
    fiftyFifty_correct_and_one_wrong [of question0 2 0]
    fiftyFifty_correct_and_one_wrong [of question0 2 "9 / 10"]
  by (simp add: applyFiftyFifty_def question0_def getRandomElement_def array_get_def
      Array_sort_undefined_def Array_sort_def List.map_filter_simps js_sub_def upt_rec)

end
